theory Spec2Isabelle
  imports Main "HOL-Library.Sublist"
begin

section \<open>JavaScript strings\<close>

text \<open>
  A JavaScript string is modelled as a \<^typ>\<open>string\<close>: the bytes of its UTF-8 encoding (a
  lone surrogate encoded like any other code point, so that every JavaScript string has
  its byte list). ASCII characters are single bytes, and in a well-formed encoding the
  bytes of a character occur only where that character stands, so that comparing,
  searching and splitting bytes is comparing, searching and splitting characters.

  \<open>toLowerCase\<close> maps \<open>A\<close>..\<open>Z\<close> to \<open>a\<close>..\<open>z\<close> and leaves every other byte alone. The
  sources use its result only to compare it with, or to search it for, words of
  lower-case ASCII letters, digits and punctuation and one Chinese word. Outside ASCII
  JavaScript lowers exactly two characters to something with an ASCII letter in it:
  U+212A to \<open>k\<close>, and U+0130 to \<open>i\<close> followed by U+0307. None of the words contains \<open>k\<close>, and
  none has an \<open>i\<close> that is the last letter or comes before U+0307, so these tests give
  what they give in JavaScript.
\<close>

definition lower_char :: "char \<Rightarrow> char" where
  "lower_char c =
     (case map_of (zip ''ABCDEFGHIJKLMNOPQRSTUVWXYZ'' ''abcdefghijklmnopqrstuvwxyz'') c of
        Some d \<Rightarrow> d
      | None \<Rightarrow> c)"

definition toLowerCase :: "string \<Rightarrow> string" where
  "toLowerCase s = map lower_char s"

text \<open>
  The line terminators of ECMAScript are U+000A, U+000D, U+2028 and U+2029. Its white
  space, which \<open>trim\<close> strips and the class \<open>\s\<close> of regular expressions matches, is the
  line terminators together with U+0009, U+000B, U+000C, U+FEFF and the space separators
  of Unicode: U+0020, U+00A0, U+1680, U+2000 to U+200A, U+202F, U+205F and U+3000. Both
  are listed by their encodings.
\<close>

definition line_terminators :: "string list" where
  "line_terminators =
     [[CHR 0x0A], [CHR 0x0D], [CHR 0xE2, CHR 0x80, CHR 0xA8], [CHR 0xE2, CHR 0x80, CHR 0xA9]]"

definition white_space :: "string list" where
  "white_space =
     [[CHR 0x09], [CHR 0x0B], [CHR 0x0C], [CHR 0x20], [CHR 0xC2, CHR 0xA0],
      [CHR 0xE1, CHR 0x9A, CHR 0x80],
      [CHR 0xE2, CHR 0x80, CHR 0x80], [CHR 0xE2, CHR 0x80, CHR 0x81],
      [CHR 0xE2, CHR 0x80, CHR 0x82], [CHR 0xE2, CHR 0x80, CHR 0x83],
      [CHR 0xE2, CHR 0x80, CHR 0x84], [CHR 0xE2, CHR 0x80, CHR 0x85],
      [CHR 0xE2, CHR 0x80, CHR 0x86], [CHR 0xE2, CHR 0x80, CHR 0x87],
      [CHR 0xE2, CHR 0x80, CHR 0x88], [CHR 0xE2, CHR 0x80, CHR 0x89],
      [CHR 0xE2, CHR 0x80, CHR 0x8A], [CHR 0xE2, CHR 0x80, CHR 0xAF],
      [CHR 0xE2, CHR 0x81, CHR 0x9F], [CHR 0xE3, CHR 0x80, CHR 0x80],
      [CHR 0xEF, CHR 0xBB, CHR 0xBF]]
     @ line_terminators"

text \<open>
  The white space character a string begins with, or ends with, if any. \<open>trimStart\<close>
  strips such characters from the front as long as there is one, \<open>trimEnd\<close> from the
  back, and \<open>trim\<close> does both.
\<close>

definition space_at_start :: "string \<Rightarrow> string option" where
  "space_at_start s = find (\<lambda>w. prefix w s) white_space"

definition space_at_end :: "string \<Rightarrow> string option" where
  "space_at_end s = find (\<lambda>w. suffix w s) white_space"

lemma white_space_nonempty: "w \<in> set white_space \<Longrightarrow> w \<noteq> []"
  by (auto simp: white_space_def line_terminators_def)

lemma space_at_start_Some: "space_at_start s = Some w \<Longrightarrow> w \<noteq> [] \<and> prefix w s"
  unfolding space_at_start_def by (auto simp: find_Some_iff white_space_nonempty)

lemma space_at_end_Some: "space_at_end s = Some w \<Longrightarrow> w \<noteq> [] \<and> suffix w s"
  unfolding space_at_end_def by (auto simp: find_Some_iff white_space_nonempty)

function trimStart :: "string \<Rightarrow> string" where
  "trimStart s =
     (case space_at_start s of
        Some w \<Rightarrow> trimStart (drop (length w) s)
      | None \<Rightarrow> s)"
  by pat_completeness auto
termination
proof (relation "measure length")
  show "wf (measure length)" by simp
next
  fix s w
  assume "space_at_start s = Some w"
  from space_at_start_Some [OF this] have "w \<noteq> []" "length w \<le> length s"
    by (auto simp: prefix_def)
  then show "(drop (length w) s, s) \<in> measure length"
    by (cases w) auto
qed

function trimEnd :: "string \<Rightarrow> string" where
  "trimEnd s =
     (case space_at_end s of
        Some w \<Rightarrow> trimEnd (take (length s - length w) s)
      | None \<Rightarrow> s)"
  by pat_completeness auto
termination
proof (relation "measure length")
  show "wf (measure length)" by simp
next
  fix s w
  assume "space_at_end s = Some w"
  from space_at_end_Some [OF this] have "w \<noteq> []" "length w \<le> length s"
    by (auto simp: suffix_def)
  then show "(take (length s - length w) s, s) \<in> measure length"
    by (cases w) auto
qed

declare trimStart.simps [simp del] trimEnd.simps [simp del]

definition trim :: "string \<Rightarrow> string" where
  "trim s = trimEnd (trimStart s)"

definition startsWith :: "string \<Rightarrow> string \<Rightarrow> bool" where
  "startsWith s p = prefix p s"

fun includes_str :: "string \<Rightarrow> string \<Rightarrow> bool" where
  "includes_str [] sub = (sub = [])"
| "includes_str (c # cs) sub = (prefix sub (c # cs) \<or> includes_str cs sub)"

section \<open>Role normalisation (utils/index.ts, normalizeClaudeRole)\<close>

text \<open>
  \<^verbatim>\<open>const r = String(role ?? '').toLowerCase()\<close> followed by four comparisons and the
  default. On a string \<^verbatim>\<open>String(role ?? '')\<close> is the string itself.
\<close>

definition normalizeClaudeRole :: "string \<Rightarrow> string" where
  "normalizeClaudeRole role =
     (let r = toLowerCase role in
      if r = ''assistant'' \<or> r = ''model'' then ''assistant''
      else if r = ''user'' \<or> r = ''human'' then ''user''
      else if r = ''system'' then ''system''
      else if r = ''tool'' then ''tool''
      else ''user'')"

section \<open>JSON values\<close>

text \<open>
  What \<^verbatim>\<open>JSON.parse\<close> returns, and what the tool schemas are: null, booleans, numbers
  (the integers; fractions play no part in the code modelled here), strings, arrays and
  objects. An object is the list of its own properties in the order JavaScript enumerates
  them.
\<close>

datatype json =
    JNull
  | JBool bool
  | JNum int
  | JStr string
  | JArr "json list"
  | JObj "(string \<times> json) list"

text \<open>\<^verbatim>\<open>typeof v === 'object'\<close> holds of null, of arrays and of objects.\<close>

fun typeof_object :: "json \<Rightarrow> bool" where
  "typeof_object JNull = True"
| "typeof_object (JArr xs) = True"
| "typeof_object (JObj kvs) = True"
| "typeof_object v = False"

fun isArray :: "json \<Rightarrow> bool" where
  "isArray (JArr xs) = True"
| "isArray v = False"

text \<open>
  The decimal numeral of an array index: spreading an array into an object literal
  (\<^verbatim>\<open>{ ...schema }\<close>) gives the object whose keys are the indices \<open>0\<close>, \<open>1\<close>, ... in order.
\<close>

definition digit :: "nat \<Rightarrow> char" where
  "digit d = ''0123456789'' ! d"

fun show_nat :: "nat \<Rightarrow> string" where
  "show_nat n = (if n < 10 then [digit n] else show_nat (n div 10) @ [digit (n mod 10)])"

declare show_nat.simps [simp del]

definition index_keys :: "nat \<Rightarrow> string list" where
  "index_keys n = map show_nat [0..<n]"

section \<open>Schema cleaning (utils/index.ts, cleanJsonSchema)\<close>

text \<open>
  The body of the \<^verbatim>\<open>for (const key in cleaned)\<close> loop is an if-chain on the key and its
  value; \<open>key_action\<close> is that chain, in the source's order, and says what happens to the
  entry: it is deleted, left as it is, or replaced by the cleaned value. The chain reads
  \<^verbatim>\<open>cleaned.type === 'string'\<close>, which no iteration changes: the \<open>type\<close> entry is never
  deleted, and a value the loop replaces is an object before and after.
\<close>

datatype action = Delete | Keep | Recurse

definition key_action :: "bool \<Rightarrow> string \<Rightarrow> json \<Rightarrow> action" where
  "key_action type_is_string key v =
     (if key = ''$schema'' \<or> key = ''title'' \<or> key = ''examples''
         \<or> key = ''additionalProperties'' then Delete
      else if key = ''enum'' \<and> isArray v then Keep
      else if key = ''format'' \<and> type_is_string then Delete
      else if key = ''properties'' \<and> typeof_object v then Recurse
      else if key = ''items'' \<and> typeof_object v then Recurse
      else if typeof_object v \<and> \<not> isArray v then Recurse
      else Keep)"

text \<open>
  \<^verbatim>\<open>if (!schema || typeof schema !== 'object') return schema\<close> returns every scalar and
  null as it is. An object is copied and its entries are treated one by one. An array
  passes the same test (\<^verbatim>\<open>typeof [] === 'object'\<close>), so it is spread into an object
  keyed by its indices, which has no \<open>type\<close> property, and treated the same way.
\<close>

lemma size_snd_lt: "(k, v) \<in> set kvs \<Longrightarrow> size v < Suc (size_list (size_prod (\<lambda>_. 0) size) kvs)"
  by (induction kvs) auto

lemma size_zip_lt: "(k, v) \<in> set (zip ks xs) \<Longrightarrow> size v < Suc (size_list size xs)"
  by (auto dest!: set_zip_rightD simp: less_Suc_eq_le size_list_estimation')

function cleanJsonSchema :: "json \<Rightarrow> json" where
  "cleanJsonSchema (JObj kvs) =
     JObj (concat (map (\<lambda>(key, v).
       case key_action (map_of kvs ''type'' = Some (JStr ''string'')) key v of
         Delete \<Rightarrow> []
       | Keep \<Rightarrow> [(key, v)]
       | Recurse \<Rightarrow> [(key, cleanJsonSchema v)]) kvs))"
| "cleanJsonSchema (JArr xs) =
     JObj (concat (map (\<lambda>(key, v).
       case key_action False key v of
         Delete \<Rightarrow> []
       | Keep \<Rightarrow> [(key, v)]
       | Recurse \<Rightarrow> [(key, cleanJsonSchema v)]) (zip (index_keys (length xs)) xs)))"
| "cleanJsonSchema JNull = JNull"
| "cleanJsonSchema (JBool b) = JBool b"
| "cleanJsonSchema (JNum n) = JNum n"
| "cleanJsonSchema (JStr s) = JStr s"
  by pat_completeness auto
termination
  by (relation "measure size") (auto simp: size_snd_lt size_zip_lt)

section \<open>Message texts\<close>

text \<open>The string literals of the sources that are not ASCII, as UTF-8 bytes.\<close>

definition kw_points_insufficient :: string where
  "kw_points_insufficient =
     [CHR 0xE7, CHR 0xA7, CHR 0xAF, CHR 0xE5, CHR 0x88, CHR 0x86, CHR 0xE4, CHR 0xB8,
      CHR 0x8D, CHR 0xE8, CHR 0xB6, CHR 0xB3]"

definition msg_upstream_error :: string where
  "msg_upstream_error =
     [CHR 0xE4, CHR 0xB8, CHR 0x8A, CHR 0xE6, CHR 0xB8, CHR 0xB8, CHR 0xE9, CHR 0x94,
      CHR 0x99, CHR 0xE8, CHR 0xAF, CHR 0xAF] @
     '': ''"

definition msg_api_key_error :: string where
  "msg_api_key_error =
     ''API'' @
     [CHR 0xE5, CHR 0xAF, CHR 0x86, CHR 0xE9, CHR 0x92, CHR 0xA5, CHR 0xE9, CHR 0x94,
      CHR 0x99, CHR 0xE8, CHR 0xAF, CHR 0xAF] @
     '': ''"

definition msg_cloudflare_blocked :: string where
  "msg_cloudflare_blocked =
     [CHR 0xE4, CHR 0xB8, CHR 0x8A, CHR 0xE6, CHR 0xB8, CHR 0xB8, CHR 0xE8, CHR 0xA7,
      CHR 0xA6, CHR 0xE5, CHR 0x8F, CHR 0x91, CHR 0xE4, CHR 0xBA, CHR 0x86] @
     '' Cloudflare '' @
     [CHR 0xE9, CHR 0x98, CHR 0xB2, CHR 0xE6, CHR 0x8A, CHR 0xA4, CHR 0xEF, CHR 0xBC,
      CHR 0x8C, CHR 0xE4, CHR 0xBB, CHR 0xA3, CHR 0xE7, CHR 0x90, CHR 0x86,
      CHR 0xE6, CHR 0x97, CHR 0xA0, CHR 0xE6, CHR 0xB3, CHR 0x95, CHR 0xE7,
      CHR 0x9B, CHR 0xB4, CHR 0xE6, CHR 0x8E, CHR 0xA5, CHR 0xE9, CHR 0x80,
      CHR 0x9A, CHR 0xE8, CHR 0xBF, CHR 0x87]"

definition msg_html_page :: string where
  "msg_html_page =
     [CHR 0xE4, CHR 0xB8, CHR 0x8A, CHR 0xE6, CHR 0xB8, CHR 0xB8, CHR 0xE8, CHR 0xBF,
      CHR 0x94, CHR 0xE5, CHR 0x9B, CHR 0x9E, CHR 0xE4, CHR 0xBA, CHR 0x86] @
     ''HTML'' @
     [CHR 0xE9, CHR 0x94, CHR 0x99, CHR 0xE8, CHR 0xAF, CHR 0xAF, CHR 0xE9, CHR 0xA1,
      CHR 0xB5, CHR 0xE9, CHR 0x9D, CHR 0xA2, CHR 0xEF, CHR 0xBC, CHR 0x8C,
      CHR 0xE6, CHR 0x97, CHR 0xA0, CHR 0xE6, CHR 0xB3, CHR 0x95, CHR 0xE8,
      CHR 0xA7, CHR 0xA3, CHR 0xE6, CHR 0x9E, CHR 0x90, CHR 0xE4, CHR 0xB8,
      CHR 0xBA] @
     ''JSON'' @
     [CHR 0xE5, CHR 0x93, CHR 0x8D, CHR 0xE5, CHR 0xBA, CHR 0x94]"

definition msg_cloudflare_reason :: string where
  "msg_cloudflare_reason =
     [CHR 0xE6, CHR 0xA3, CHR 0x80, CHR 0xE6, CHR 0xB5, CHR 0x8B, CHR 0xE5, CHR 0x88,
      CHR 0xB0] @
     '' Cloudflare '' @
     [CHR 0xE6, CHR 0xB5, CHR 0x8F, CHR 0xE8, CHR 0xA7, CHR 0x88, CHR 0xE5, CHR 0x99,
      CHR 0xA8, CHR 0xE6, CHR 0x8C, CHR 0x91, CHR 0xE6, CHR 0x88, CHR 0x98,
      CHR 0xE9, CHR 0xA1, CHR 0xB5, CHR 0xE9, CHR 0x9D, CHR 0xA2]"

definition msg_cloudflare_hint :: string where
  "msg_cloudflare_hint =
     [CHR 0xE7, CHR 0x9B, CHR 0xAE, CHR 0xE6, CHR 0xA0, CHR 0x87, CHR 0xE6, CHR 0xB8,
      CHR 0xA0, CHR 0xE9, CHR 0x81, CHR 0x93, CHR 0xE5, CHR 0x90, CHR 0xAF,
      CHR 0xE7, CHR 0x94, CHR 0xA8, CHR 0xE4, CHR 0xBA, CHR 0x86] @
     '' Cloudflare '' @
     [CHR 0xE9, CHR 0x98, CHR 0xB2, CHR 0xE6, CHR 0x8A, CHR 0xA4, CHR 0xEF, CHR 0xBC,
      CHR 0x8C, CHR 0xE9, CHR 0x9C, CHR 0x80, CHR 0xE8, CHR 0xA6, CHR 0x81,
      CHR 0xE5, CHR 0x85, CHR 0x88, CHR 0xE5, CHR 0x9C, CHR 0xA8, CHR 0xE6,
      CHR 0xB5, CHR 0x8F, CHR 0xE8, CHR 0xA7, CHR 0x88, CHR 0xE5, CHR 0x99,
      CHR 0xA8, CHR 0xE4, CHR 0xB8, CHR 0xAD, CHR 0xE5, CHR 0xAE, CHR 0x8C,
      CHR 0xE6, CHR 0x88, CHR 0x90, CHR 0xE7, CHR 0x99, CHR 0xBB, CHR 0xE5,
      CHR 0xBD, CHR 0x95] @
     ''/'' @
     [CHR 0xE4, CHR 0xBA, CHR 0xBA, CHR 0xE6, CHR 0x9C, CHR 0xBA, CHR 0xE9, CHR 0xAA,
      CHR 0x8C, CHR 0xE8, CHR 0xAF, CHR 0x81, CHR 0xE6, CHR 0x88, CHR 0x96,
      CHR 0xE9, CHR 0x85, CHR 0x8D, CHR 0xE7, CHR 0xBD, CHR 0xAE] @
     '' cf_clearance Cookie '' @
     [CHR 0xE5, CHR 0x90, CHR 0x8E, CHR 0xE5, CHR 0x86, CHR 0x8D, CHR 0xE8, CHR 0xAE,
      CHR 0xBF, CHR 0xE9, CHR 0x97, CHR 0xAE]"

definition msg_all_keys_unavailable :: string where
  "msg_all_keys_unavailable =
     [CHR 0xE6, CHR 0x89, CHR 0x80, CHR 0xE6, CHR 0x9C, CHR 0x89, CHR 0xE4, CHR 0xB8,
      CHR 0x8A, CHR 0xE6, CHR 0xB8, CHR 0xB8] @
     ''API'' @
     [CHR 0xE5, CHR 0xAF, CHR 0x86, CHR 0xE9, CHR 0x92, CHR 0xA5, CHR 0xE9, CHR 0x83,
      CHR 0xBD, CHR 0xE4, CHR 0xB8, CHR 0x8D, CHR 0xE5, CHR 0x8F, CHR 0xAF,
      CHR 0xE7, CHR 0x94, CHR 0xA8]"

definition msg_current_channel :: string where
  "msg_current_channel =
     [CHR 0xE5, CHR 0xBD, CHR 0x93, CHR 0xE5, CHR 0x89, CHR 0x8D, CHR 0xE6, CHR 0xB8,
      CHR 0xA0, CHR 0xE9, CHR 0x81, CHR 0x93] @
     '' '' @ [CHR 0x22]"

definition msg_has_no_api_key :: string where
  "msg_has_no_api_key =
     [CHR 0x22] @ '' '' @
     [CHR 0xE6, CHR 0x9C, CHR 0xAA, CHR 0xE9, CHR 0x85, CHR 0x8D, CHR 0xE7, CHR 0xBD,
      CHR 0xAE] @
     ''API'' @
     [CHR 0xE5, CHR 0xAF, CHR 0x86, CHR 0xE9, CHR 0x92, CHR 0xA5]"

section \<open>JavaScript values\<close>

text \<open>
  Truthiness (what \<^verbatim>\<open>if (v)\<close>, \<^verbatim>\<open>!v\<close> and \<^verbatim>\<open>a || b\<close> test), and reading a property of a
  value that is not null. The properties read are \<open>error\<close>, \<open>message\<close> and \<open>type\<close>, which
  only an object can have; on a string, a number, a boolean or an array the read gives
  \<^verbatim>\<open>undefined\<close>, here \<open>None\<close>. Reading a property of null throws, and is written out
  where the code does it.
\<close>

fun truthy :: "json \<Rightarrow> bool" where
  "truthy JNull = False"
| "truthy (JBool b) = b"
| "truthy (JNum n) = (n \<noteq> 0)"
| "truthy (JStr s) = (s \<noteq> [])"
| "truthy (JArr xs) = True"
| "truthy (JObj kvs) = True"

fun get_prop :: "json \<Rightarrow> string \<Rightarrow> json option" where
  "get_prop (JObj kvs) key = map_of kvs key"
| "get_prop v key = None"

text \<open>
  \<^verbatim>\<open>v.toString()\<close> on a value that is not undefined; \<open>None\<close> stands for the TypeError it
  throws: on null, and on an object that has an own property called \<open>toString\<close> (a parsed
  JSON value is never a function). An array joins the strings of its elements with
  commas, null elements giving the empty string.
\<close>

definition show_int :: "int \<Rightarrow> string" where
  "show_int i = (if i < 0 then ''-'' @ show_nat (nat (- i)) else show_nat (nat i))"

fun join_comma :: "string list \<Rightarrow> string" where
  "join_comma [] = []"
| "join_comma [s] = s"
| "join_comma (s # t # ss) = s @ '','' @ join_comma (t # ss)"

fun toString_json :: "json \<Rightarrow> string option" where
  "toString_json JNull = None"
| "toString_json (JBool b) = Some (if b then ''true'' else ''false'')"
| "toString_json (JNum n) = Some (show_int n)"
| "toString_json (JStr s) = Some s"
| "toString_json (JArr xs) =
     map_option join_comma
       (those (map (\<lambda>x. if x = JNull then Some [] else toString_json x) xs))"
| "toString_json (JObj kvs) =
     (if ''toString'' \<in> fst ` set kvs then None else Some ''[object Object]'')"

section \<open>HTML error pages (utils/index.ts, detectUpstreamHtmlError)\<close>

text \<open>The optional fields of the result are options; an absent \<open>isCloudflare\<close> is \<open>None\<close>.\<close>

record HtmlErrorDetectionResult =
  isHtml :: bool
  isCloudflare :: "bool option"
  reason :: "string option"
  hint :: "string option"

definition detectUpstreamHtmlError :: "string \<Rightarrow> HtmlErrorDetectionResult" where
  "detectUpstreamHtmlError html =
     (if html = [] then \<lparr>isHtml = False, isCloudflare = None, reason = None, hint = None\<rparr>
      else
        let trimmed = trim html;
            lower = toLowerCase trimmed;
            isHtml = (startsWith lower ''<!doctype html'' \<or> startsWith lower ''<html'')
        in if \<not> isHtml
           then \<lparr>isHtml = False, isCloudflare = None, reason = None, hint = None\<rparr>
           else if includes_str lower ''cloudflare''
                   \<and> (includes_str lower ''just a moment'' \<or> includes_str lower ''__cf_chl_opt'')
           then \<lparr>isHtml = True, isCloudflare = Some True,
                  reason = Some msg_cloudflare_reason, hint = Some msg_cloudflare_hint\<rparr>
           else \<lparr>isHtml = True, isCloudflare = None, reason = None, hint = None\<rparr>)"

section \<open>Upstream responses and their classification (server.ts, POST /v1/messages)\<close>

text \<open>
  A fetch \<open>Response\<close> as far as the code reads it: the status and its text; the body stream
  (\<open>None\<close> for a null body), given as the results of the successive \<open>reader.read()\<close> calls
  up to the end of the stream, each a chunk of decoded text or a rejection; what
  \<open>clone().json()\<close> resolves to (\<open>None\<close> when it rejects: the body is not JSON); and what
  \<open>clone().text()\<close> resolves to (\<open>None\<close> when it rejects).
\<close>

datatype read = Chunk string | ReadRejects

record response =
  status :: nat
  statusText :: string
  body :: "read list option"
  body_json :: "json option"
  body_text :: "string option"

text \<open>\<open>Response.ok\<close>: the status is in the range 200 to 299.\<close>

definition ok :: "response \<Rightarrow> bool" where
  "ok r = (200 \<le> status r \<and> status r \<le> 299)"

text \<open>The fields of the channel configuration that the request handler reads.\<close>

record upstream =
  name :: "string option"
  serviceType :: string
  baseUrl :: string
  apiKeys :: "string list"

text \<open>
  \<open>lastFailoverError\<close>, an object \<^verbatim>\<open>{ status, body?, text? }\<close>. What the classification
  block leaves behind: the flags \<open>shouldFailover\<close> and \<open>isQuotaRelated\<close>, the message of the
  error it throws on failover, and the value it assigns to \<open>lastFailoverError\<close>, if any.
\<close>

record failover_error =
  fe_status :: nat
  fe_body :: "json option"
  fe_text :: "string option"

record classification =
  shouldFailover :: bool
  isQuotaRelated :: bool
  errorMessage :: string
  recorded :: "failover_error option"

text \<open>
  \<^verbatim>\<open>const errorMsg = errorBody.error.message || errorBody.error || ''\<close> and
  \<^verbatim>\<open>const errorType = (errorBody.error.type || '').toString().toLowerCase()\<close>, for the
  value \<open>e\<close> of \<open>errorBody.error\<close>.
\<close>

definition errorMsg_of :: "json \<Rightarrow> json" where
  "errorMsg_of e =
     (case get_prop e ''message'' of
        Some m \<Rightarrow> if truthy m then m else if truthy e then e else JStr []
      | None \<Rightarrow> if truthy e then e else JStr [])"

definition errorType_of :: "json \<Rightarrow> string option" where
  "errorType_of e =
     map_option toLowerCase
       (toString_json (case get_prop e ''type'' of
                         Some t \<Rightarrow> if truthy t then t else JStr []
                       | None \<Rightarrow> JStr []))"

text \<open>The initial \<open>errorMessage\<close>, and the JSON object built for an HTML error page.\<close>

definition default_errorMessage :: "response \<Rightarrow> string" where
  "default_errorMessage r = msg_upstream_error @ show_nat (status r) @ '' '' @ statusText r"

definition html_error_body :: "upstream \<Rightarrow> HtmlErrorDetectionResult \<Rightarrow> json" where
  "html_error_body up htmlInfo =
     JObj ([(''error'', JStr (if isCloudflare htmlInfo = Some True
                              then msg_cloudflare_blocked else msg_html_page)),
            (''code'', JStr (if isCloudflare htmlInfo = Some True
                             then ''UPSTREAM_CLOUDFLARE_CHALLENGE'' else ''UPSTREAM_HTML_ERROR'')),
            (''upstream'',
               JObj [(''name'', JStr (case name up of
                                        Some n \<Rightarrow> if n \<noteq> [] then n else serviceType up
                                      | None \<Rightarrow> serviceType up)),
                     (''baseUrl'', JStr (baseUrl up))])]
           @ (case reason htmlInfo of
                Some t \<Rightarrow> if t \<noteq> [] then [(''reason'', JStr t)] else []
              | None \<Rightarrow> [])
           @ (case hint htmlInfo of
                Some t \<Rightarrow> if t \<noteq> [] then [(''hint'', JStr t)] else []
              | None \<Rightarrow> []))"

text \<open>
  The \<open>try\<close> block once \<open>errorBody\<close> is there. \<open>None\<close> stands for an exception thrown inside
  it, which the \<open>catch (parseError)\<close> block receives like a failed parse: reading
  \<open>.error\<close> of null, or the \<open>toString\<close> of the type throwing. Both come before any flag is
  set.
\<close>

definition classify_parsed :: "response \<Rightarrow> json \<Rightarrow> classification option" where
  "classify_parsed r errorBody =
     (if errorBody = JNull then None
      else
        let keywords =
          (case get_prop errorBody ''error'' of
             None \<Rightarrow> Some (False, False, default_errorMessage r)
           | Some e \<Rightarrow>
               if \<not> truthy e then Some (False, False, default_errorMessage r)
               else
                 (case errorType_of e of
                    None \<Rightarrow> None
                  | Some errorType \<Rightarrow>
                      (case errorMsg_of e of
                         JStr errorMsg \<Rightarrow>
                           let lowerErrorMsg = toLowerCase errorMsg in
                           if includes_str lowerErrorMsg kw_points_insufficient
                              \<or> includes_str lowerErrorMsg ''insufficient''
                              \<or> includes_str lowerErrorMsg ''invalid''
                              \<or> includes_str lowerErrorMsg ''unauthorized''
                              \<or> includes_str lowerErrorMsg ''quota''
                              \<or> includes_str lowerErrorMsg ''rate limit''
                              \<or> includes_str lowerErrorMsg ''credit''
                              \<or> includes_str lowerErrorMsg ''balance''
                              \<or> includes_str errorType ''permission''
                              \<or> includes_str errorType ''insufficient''
                              \<or> includes_str errorType ''over_quota''
                              \<or> includes_str errorType ''billing''
                           then Some (True,
                                  includes_str lowerErrorMsg kw_points_insufficient
                                  \<or> includes_str lowerErrorMsg ''insufficient''
                                  \<or> includes_str lowerErrorMsg ''credit''
                                  \<or> includes_str lowerErrorMsg ''balance''
                                  \<or> includes_str lowerErrorMsg ''quota''
                                  \<or> includes_str errorType ''over_quota''
                                  \<or> includes_str errorType ''billing'',
                                  msg_api_key_error @ errorMsg)
                           else Some (False, False, default_errorMessage r)
                       | _ \<Rightarrow> Some (False, False, default_errorMessage r))))
        in case keywords of
             None \<Rightarrow> None
           | Some (failover, quota, message) \<Rightarrow>
               let shouldFailover = (failover \<or> status r = 401 \<or> status r = 403)
               in Some \<lparr>shouldFailover = shouldFailover, isQuotaRelated = quota,
                         errorMessage = message,
                         recorded = (if shouldFailover
                                     then Some \<lparr>fe_status = status r, fe_body = Some errorBody,
                                                 fe_text = None\<rparr>
                                     else None)\<rparr>)"

text \<open>
  The \<open>catch (parseError)\<close> block: the status decides. Reading the text may fail as well;
  the inner \<open>catch {}\<close> then leaves \<open>lastFailoverError\<close> as it was.
\<close>

definition classify_unparsed :: "upstream \<Rightarrow> response \<Rightarrow> classification" where
  "classify_unparsed up r =
     (if status r = 401 \<or> status r = 403 \<or> status r \<ge> 500
      then \<lparr>shouldFailover = True, isQuotaRelated = False,
             errorMessage = default_errorMessage r,
             recorded =
               (case body_text r of
                  None \<Rightarrow> None
                | Some text \<Rightarrow>
                    let htmlInfo = detectUpstreamHtmlError text in
                    if isHtml htmlInfo
                    then Some \<lparr>fe_status = status r,
                                fe_body = Some (html_error_body up htmlInfo), fe_text = None\<rparr>
                    else Some \<lparr>fe_status = status r, fe_body = None, fe_text = Some text\<rparr>)\<rparr>
      else \<lparr>shouldFailover = False, isQuotaRelated = False,
             errorMessage = default_errorMessage r, recorded = None\<rparr>)"

definition classify :: "upstream \<Rightarrow> response \<Rightarrow> classification" where
  "classify up r =
     (case body_json r of
        None \<Rightarrow> classify_unparsed up r
      | Some errorBody \<Rightarrow>
          (case classify_parsed r errorBody of
             Some c \<Rightarrow> c
           | None \<Rightarrow> classify_unparsed up r))"

text \<open>
  The three outcomes of the loop body for a response: a 2xx response breaks the loop, a
  response flagged \<open>shouldFailover\<close> throws (and the next key is tried), any other breaks
  the loop and is passed on.
\<close>

datatype outcome = Success | Failover bool | FatalPassThrough

definition classifier :: "upstream \<Rightarrow> response \<Rightarrow> outcome" where
  "classifier up r =
     (if ok r then Success
      else if shouldFailover (classify up r) then Failover (isQuotaRelated (classify up r))
      else FatalPassThrough)"

section \<open>Notions used in the statements about the classification\<close>


definition unreadable :: "response \<Rightarrow> bool" where
  "unreadable r =
     (case body_json r of
        None \<Rightarrow> True
      | Some errorBody \<Rightarrow>
          errorBody = JNull
          \<or> (case get_prop errorBody ''error'' of
                None \<Rightarrow> False
              | Some e \<Rightarrow> truthy e \<and> errorType_of e = None))"

section \<open>The failover loop (server.ts, POST /v1/messages)\<close>

text \<open>
  The variables of the loop. \<open>failedKeys\<close> and \<open>deprioritizeCandidates\<close> are JavaScript
  sets, kept as lists without repetition in insertion order. One field is not a
  variable of the source: \<open>markedFailed\<close> lists the calls of
  \<open>configManager.markKeyAsFailed\<close>.

  \<open>configManager.getNextApiKey\<close> and the sending of the request (conversion and fetch) are
  parameters: a scheduler gets the attempt number and the excluded keys and gives a key
  or throws (\<open>Inl\<close> the message), a sender gets the attempt number and the key and gives
  the response or throws.
\<close>

record loop_state =
  failedKeys :: "string list"
  providerResponse :: "response option"
  lastError :: "string option"
  lastFailoverError :: "failover_error option"
  deprioritizeCandidates :: "string list"
  markedFailed :: "string list"

definition set_add :: "'a \<Rightarrow> 'a list \<Rightarrow> 'a list" where
  "set_add x xs = (if x \<in> set xs then xs else xs @ [x])"

datatype flow = Break | Continue

type_synonym scheduler = "nat \<Rightarrow> string list \<Rightarrow> string + string"
type_synonym sender = "nat \<Rightarrow> string \<Rightarrow> string + response"

text \<open>
  The \<open>catch (error)\<close> block of the loop: \<open>apiKey\<close> is \<open>None\<close> when \<open>getNextApiKey\<close> threw.
  Inside the loop \<open>attempt < maxRetries\<close>, so \<open>attempt === maxRetries - 1\<close> is
  \<open>attempt + 1 = maxRetries\<close>.
\<close>

definition on_error ::
  "nat \<Rightarrow> nat \<Rightarrow> string option \<Rightarrow> string \<Rightarrow> loop_state \<Rightarrow> flow \<times> loop_state" where
  "on_error maxRetries attempt apiKey message st =
     (let st1 = st\<lparr>lastError := Some message\<rparr> in
      if attempt + 1 = maxRetries then (Break, st1)
      else
        (case apiKey of
           Some k \<Rightarrow>
             if k \<noteq> []
             then (Continue, st1\<lparr>failedKeys := set_add k (failedKeys st1),
                                  markedFailed := markedFailed st1 @ [k]\<rparr>)
             else (Break, st1)
         | None \<Rightarrow> (Break, st1)))"

definition attempt_body ::
  "upstream \<Rightarrow> scheduler \<Rightarrow> sender \<Rightarrow> nat \<Rightarrow> nat \<Rightarrow> loop_state \<Rightarrow> flow \<times> loop_state" where
  "attempt_body up getNextApiKey send maxRetries attempt st =
     (case getNextApiKey attempt (failedKeys st) of
        Inl message \<Rightarrow> on_error maxRetries attempt None message st
      | Inr apiKey \<Rightarrow>
          (case send attempt apiKey of
             Inl message \<Rightarrow> on_error maxRetries attempt (Some apiKey) message st
           | Inr resp \<Rightarrow>
               let st1 = st\<lparr>providerResponse := Some resp\<rparr> in
               if ok resp then (Break, st1)
               else
                 let c = classify up resp;
                     st2 = (case recorded c of
                              Some e \<Rightarrow> st1\<lparr>lastFailoverError := Some e\<rparr>
                            | None \<Rightarrow> st1)
                 in if shouldFailover c
                    then
                      let st3 = (if isQuotaRelated c \<and> apiKey \<noteq> []
                                 then st2\<lparr>deprioritizeCandidates :=
                                             set_add apiKey (deprioritizeCandidates st2)\<rparr>
                                 else st2)
                      in on_error maxRetries attempt (Some apiKey) (errorMessage c) st3
                    else (Break, st2)))"

function failover_loop ::
  "upstream \<Rightarrow> scheduler \<Rightarrow> sender \<Rightarrow> nat \<Rightarrow> nat \<Rightarrow> loop_state \<Rightarrow> loop_state" where
  "failover_loop up getNextApiKey send maxRetries attempt st =
     (if attempt < maxRetries
      then (case attempt_body up getNextApiKey send maxRetries attempt st of
              (Break, st') \<Rightarrow> st'
            | (Continue, st') \<Rightarrow> failover_loop up getNextApiKey send maxRetries (attempt + 1) st')
      else st)"
  by pat_completeness auto
termination
  by (relation "measure (\<lambda>(up, getNextApiKey, send, maxRetries, attempt, st). maxRetries - attempt)")
    auto

declare failover_loop.simps [simp del]

definition initial_state :: loop_state where
  "initial_state = \<lparr>failedKeys = [], providerResponse = None, lastError = None,
     lastFailoverError = None, deprioritizeCandidates = [], markedFailed = []\<rparr>"

text \<open>
  What follows the loop. Either the handler answers by itself
  (\<^verbatim>\<open>res.status(s).json(b); return\<close>), or it goes on with \<open>providerResponse\<close>: it calls
  \<open>deprioritizeApiKeyForCurrentUpstream\<close> for the keys listed and hands the response to
  \<open>convertToClaudeResponse\<close>.
\<close>

datatype client_result =
    Responded nat json
  | Converted response "string list"

definition or_else :: "string option \<Rightarrow> string \<Rightarrow> string" where
  "or_else s d = (case s of Some t \<Rightarrow> if t \<noteq> [] then t else d | None \<Rightarrow> d)"

definition after_loop :: "loop_state \<Rightarrow> client_result" where
  "after_loop st =
     (case providerResponse st of
        None \<Rightarrow>
          (case lastFailoverError st of
             Some e \<Rightarrow>
               let status = (if fe_status e = 0 then 500 else fe_status e) in
               (case fe_body e of
                  Some b \<Rightarrow>
                    if truthy b \<and> typeof_object b then Responded status b
                    else Responded status
                      (JObj [(''error'', JStr (or_else (lastError st)
                                (or_else (fe_text e) ''Upstream error'')))])
                | None \<Rightarrow>
                    Responded status
                      (JObj [(''error'', JStr (or_else (lastError st)
                                (or_else (fe_text e) ''Upstream error'')))]))
           | None \<Rightarrow>
               Responded 500
                 (JObj ((''error'', JStr msg_all_keys_unavailable)
                        # (case lastError st of
                             Some m \<Rightarrow> [(''details'', JStr m)]
                           | None \<Rightarrow> []))))
      | Some r \<Rightarrow>
          Converted r
            (if ok r \<and> deprioritizeCandidates st \<noteq> [] then deprioritizeCandidates st else []))"

definition messages_failover :: "upstream \<Rightarrow> scheduler \<Rightarrow> sender \<Rightarrow> loop_state" where
  "messages_failover up getNextApiKey send =
     failover_loop up getNextApiKey send (length (apiKeys up)) 0 initial_state"

text \<open>
  The handler from the point where the channel \<open>upstream\<close> is selected: a channel
  without keys is answered 503 (an absent \<open>apiKeys\<close> is the empty list here), a service
  type that has no provider implementation 400, and otherwise the loop runs.
\<close>

definition supported :: "upstream \<Rightarrow> bool" where
  "supported up = (serviceType up \<in> set [''gemini'', ''openai'', ''openaiold'', ''claude''])"

definition post_messages :: "upstream \<Rightarrow> scheduler \<Rightarrow> sender \<Rightarrow> client_result" where
  "post_messages up getNextApiKey send =
     (if apiKeys up = []
      then Responded 503
             (JObj [(''error'', JStr (msg_current_channel @ or_else (name up) (serviceType up)
                                      @ msg_has_no_api_key)),
                    (''code'', JStr ''NO_API_KEYS'')])
      else if \<not> supported up
      then Responded 400 (JObj [(''error'', JStr ''Unsupported type'')])
      else after_loop (messages_failover up getNextApiKey send))"

text \<open>
  The calls of \<open>deprioritizeApiKeyForCurrentUpstream\<close> made for a request, in order; the
  branches that answer by themselves return before that point and make none.
\<close>

fun deprioritize_calls :: "client_result \<Rightarrow> string list" where
  "deprioritize_calls (Responded s b) = []"
| "deprioritize_calls (Converted r ks) = ks"

section \<open>The key scheduler, as the specification describes it\<close>

text \<open>
  Modelled from the spec: \<open>config/config.ts\<close>, with \<open>getNextApiKey\<close> and
  \<open>deprioritizeApiKeyForCurrentUpstream\<close>, is not among the sources. Section 4.5
  describes the sequential scheduler: the first key of the channel that is not excluded,
  an error when there is none. It serves the examples only; the theorems hold for every
  scheduler. The same section has \<open>deprioritizeKey\<close> move the key to the end of the
  channel's keys, as the only operation that changes the persisted order; so the keys of
  the channel after a request are its keys with the calls made applied in order.
\<close>

definition nextKey_sequential :: "upstream \<Rightarrow> scheduler" where
  "nextKey_sequential up attempt excluded =
     (case filter (\<lambda>k. k \<notin> set excluded) (apiKeys up) of
        [] \<Rightarrow> Inl ''no available key''
      | k # _ \<Rightarrow> Inr k)"

definition deprioritizeKey :: "string \<Rightarrow> string list \<Rightarrow> string list" where
  "deprioritizeKey key keys =
     (if key \<in> set keys then filter (\<lambda>k. k \<noteq> key) keys @ [key] else keys)"

definition persisted_keys :: "upstream \<Rightarrow> client_result \<Rightarrow> string list" where
  "persisted_keys up result =
     foldl (\<lambda>keys key. deprioritizeKey key keys) (apiKeys up) (deprioritize_calls result)"

section \<open>The attempts of a request\<close>

text \<open>
  What a request does, told by the calls it makes, for the statements about the loop.
  \<open>excluded_before a\<close> is the set of keys excluded when attempt \<open>a\<close> begins, and \<open>None\<close>
  when the request makes no attempt \<open>a\<close>. The first attempt is made when the channel has
  keys and a supported type. After an attempt the next one is made when the scheduler
  gave a key, not the empty string, the attempt was not the last, and the key failed:
  the sender threw, or the response was classified failover. The key is then excluded.
  \<open>tried a key resp\<close>: attempt \<open>a\<close> is made, the scheduler gives \<open>key\<close> for it and the sender
  returns \<open>resp\<close> for that key.
\<close>

fun excluded_before :: "upstream \<Rightarrow> scheduler \<Rightarrow> sender \<Rightarrow> nat \<Rightarrow> string list option" where
  "excluded_before up getNextApiKey send 0 =
     (if apiKeys up \<noteq> [] \<and> supported up then Some [] else None)"
| "excluded_before up getNextApiKey send (Suc a) =
     (case excluded_before up getNextApiKey send a of
        None \<Rightarrow> None
      | Some excluded \<Rightarrow>
          (case getNextApiKey a excluded of
             Inl message \<Rightarrow> None
           | Inr key \<Rightarrow>
               if key \<noteq> [] \<and> Suc a < length (apiKeys up)
               then (case send a key of
                       Inl message \<Rightarrow> Some (set_add key excluded)
                     | Inr resp \<Rightarrow>
                         (case classifier up resp of
                            Failover quota \<Rightarrow> Some (set_add key excluded)
                          | _ \<Rightarrow> None))
               else None))"

definition tried :: "upstream \<Rightarrow> scheduler \<Rightarrow> sender \<Rightarrow> nat \<Rightarrow> string \<Rightarrow> response \<Rightarrow> bool" where
  "tried up getNextApiKey send a key resp =
     (case excluded_before up getNextApiKey send a of
        None \<Rightarrow> False
      | Some excluded \<Rightarrow> getNextApiKey a excluded = Inr key \<and> send a key = Inr resp)"

text \<open>
  The invariant of the loop, for the proofs, when attempt \<open>a\<close> begins in state \<open>st\<close>: the
  excluded keys are those of \<open>excluded_before\<close>, no attempt before has received a 2xx
  response, the candidates are the keys that received a quota-related failover before,
  and a response held in \<open>providerResponse\<close> is a failed one, without which no error is
  recorded. And what holds when the loop has ended: after a 2xx response, it was
  received at an attempt and the candidates are the keys that received a quota-related
  failover at an attempt; otherwise no attempt received a 2xx response.
\<close>

definition loop_inv :: "upstream \<Rightarrow> scheduler \<Rightarrow> sender \<Rightarrow> nat \<Rightarrow> loop_state \<Rightarrow> bool" where
  "loop_inv up getNextApiKey send a st =
     (excluded_before up getNextApiKey send a = Some (failedKeys st)
      \<and> (\<forall>b key resp. b < a \<and> tried up getNextApiKey send b key resp \<longrightarrow> \<not> ok resp)
      \<and> distinct (deprioritizeCandidates st)
      \<and> set (deprioritizeCandidates st)
          = {key. \<exists>b resp. b < a \<and> tried up getNextApiKey send b key resp
                            \<and> classifier up resp = Failover True}
      \<and> (case providerResponse st of None \<Rightarrow> lastFailoverError st = None | Some r \<Rightarrow> \<not> ok r))"

definition loop_post :: "upstream \<Rightarrow> scheduler \<Rightarrow> sender \<Rightarrow> loop_state \<Rightarrow> bool" where
  "loop_post up getNextApiKey send st =
     (distinct (deprioritizeCandidates st)
      \<and> (case providerResponse st of
            None \<Rightarrow>
              lastFailoverError st = None
              \<and> (\<forall>a key resp. tried up getNextApiKey send a key resp \<longrightarrow> \<not> ok resp)
          | Some r \<Rightarrow>
              if ok r
              then (\<exists>a key. tried up getNextApiKey send a key r)
                   \<and> (\<forall>a key resp. tried up getNextApiKey send a key resp \<and> ok resp
                         \<longrightarrow> resp = r)
                   \<and> set (deprioritizeCandidates st)
                       = {key. \<exists>a resp. tried up getNextApiKey send a key resp
                                        \<and> classifier up resp = Failover True}
              else (\<forall>a key resp. tried up getNextApiKey send a key resp \<longrightarrow> \<not> ok resp)))"

section \<open>Example channel and responses\<close>

text \<open>
  A channel with three keys, and upstream responses: JSON errors of several shapes, a
  success, a Cloudflare challenge page, and an HTML page that begins with a byte order
  mark, a no-break space and a line feed. \<open>upstream_response\<close> makes the response from
  the status, the text of the body, which comes in one chunk, and what the text parses
  to; in the text of a JSON body the double quote is written \<open>CHR 0x22\<close>. Two senders: one
  answers the first key with a billing error and any other with 200, one answers every
  key with the challenge page.
\<close>

definition channel :: upstream where
  "channel = \<lparr>name = Some ''main'', serviceType = ''claude'',
      baseUrl = ''https://api.example.com'', apiKeys = [''k1'', ''k2'', ''k3'']\<rparr>"

definition upstream_response :: "nat \<Rightarrow> string \<Rightarrow> string \<Rightarrow> json option \<Rightarrow> response" where
  "upstream_response code reason_phrase content parsed =
     \<lparr>status = code, statusText = reason_phrase, body = Some [Chunk content],
      body_json = parsed, body_text = Some content\<rparr>"

definition billing_response :: response where
  "billing_response = upstream_response 400 ''Bad Request''
      (''{'' @ [CHR 0x22] @ ''error'' @ [CHR 0x22] @ '':{'' @ [CHR 0x22] @ ''message'' @
       [CHR 0x22] @ '':'' @ [CHR 0x22] @ ''credit balance too low'' @ [CHR 0x22] @ '','' @
       [CHR 0x22] @ ''type'' @ [CHR 0x22] @ '':'' @ [CHR 0x22] @ ''billing'' @ [CHR 0x22] @
       ''}}'')
      (Some (JObj [(''error'', JObj [(''message'', JStr ''credit balance too low''),
                                     (''type'', JStr ''billing'')])]))"

definition ok_response :: response where
  "ok_response = upstream_response 200 ''OK''
      (''{'' @ [CHR 0x22] @ ''type'' @ [CHR 0x22] @ '':'' @ [CHR 0x22] @ ''message'' @
       [CHR 0x22] @ ''}'')
      (Some (JObj [(''type'', JStr ''message'')]))"

definition unparsed_bad_request :: response where
  "unparsed_bad_request = upstream_response 400 ''Bad Request'' ''Bad Request'' None"






definition type_without_string_response :: response where
  "type_without_string_response = upstream_response 400 ''Bad Request''
      (''{'' @ [CHR 0x22] @ ''error'' @ [CHR 0x22] @ '':{'' @ [CHR 0x22] @ ''message'' @
       [CHR 0x22] @ '':'' @ [CHR 0x22] @ ''quota exceeded'' @ [CHR 0x22] @ '','' @
       [CHR 0x22] @ ''type'' @ [CHR 0x22] @ '':{'' @ [CHR 0x22] @ ''toString'' @ [CHR 0x22] @
       '':1}}}'')
      (Some (JObj [(''error'', JObj [(''message'', JStr ''quota exceeded''),
                                     (''type'', JObj [(''toString'', JNum 1)])])]))"

definition null_error_response :: response where
  "null_error_response = upstream_response 503 ''Service Unavailable'' ''null'' (Some JNull)"


definition cloudflare_page :: string where
  "cloudflare_page = ''<html><title>Just a moment...</title>Cloudflare</html>''"

definition cloudflare_response :: response where
  "cloudflare_response = upstream_response 502 ''Bad Gateway'' cloudflare_page None"

definition spaced_html_page :: string where
  "spaced_html_page =
     [CHR 0xEF, CHR 0xBB, CHR 0xBF, CHR 0xC2, CHR 0xA0, CHR 0x0A] @ ''<HTML>Bad gateway</HTML>''"

definition spaced_html_response :: response where
  "spaced_html_response = upstream_response 502 ''Bad Gateway'' spaced_html_page None"


definition cloudflare_error_body :: json where
  "cloudflare_error_body =
     JObj [(''error'', JStr msg_cloudflare_blocked),
           (''code'', JStr ''UPSTREAM_CLOUDFLARE_CHALLENGE''),
           (''upstream'', JObj [(''name'', JStr ''main''),
                                (''baseUrl'', JStr ''https://api.example.com'')]),
           (''reason'', JStr msg_cloudflare_reason),
           (''hint'', JStr msg_cloudflare_hint)]"

definition first_key_out_of_credit :: sender where
  "first_key_out_of_credit attempt key =
     (if key = ''k1'' then Inr billing_response else Inr ok_response)"

definition always_cloudflare :: sender where
  "always_cloudflare attempt key = Inr cloudflare_response"

section \<open>The stream pump (utils/index.ts, processProviderStream)\<close>

text \<open>
  \<^verbatim>\<open>trimmedLine.match(/^data:\s*(.*)$/)\<close>, giving the capture. The pattern has no flags:
  \<open>$\<close> is the end of the string and \<open>.\<close> matches any character but a line terminator. Line
  terminators are white space, so the greedy \<open>\s*\<close> takes all the white space after
  \<open>data:\<close>; giving some of it back would only put a character more before the end. The
  match therefore exists exactly when no line terminator is left after that white space,
  and the capture is what is left.
\<close>

definition has_line_terminator :: "string \<Rightarrow> bool" where
  "has_line_terminator s = list_ex (includes_str s) line_terminators"

definition dataMatch :: "string \<Rightarrow> string option" where
  "dataMatch s =
     (if startsWith s ''data:''
      then let rest = trimStart (drop 5 s)
           in if has_line_terminator rest then None else Some rest
      else None)"

text \<open>
  \<^verbatim>\<open>chunk.split('\n')\<close>: the segments between line feeds, one more than there are line
  feeds. \<open>split_from cur s\<close> has \<open>cur\<close> as the segment begun so far.
\<close>

fun split_from :: "string \<Rightarrow> string \<Rightarrow> string list" where
  "split_from cur [] = [cur]"
| "split_from cur (c # cs) =
     (if c = CHR 0x0A then cur # split_from [] cs else split_from (cur @ [c]) cs)"

definition split_nl :: "string \<Rightarrow> string list" where
  "split_nl s = split_from [] s"

text \<open>
  The controller of the output stream: the strings whose encodings
  (\<^verbatim>\<open>new TextEncoder().encode(event)\<close>) were enqueued, in order, and the state of the
  stream: readable, closed (\<open>controller.close()\<close>) or errored (\<open>controller.error(e)\<close>). The
  events that \<open>sendMessageStart\<close> and \<open>sendMessageStop\<close> build and the events that the decoder
  returns are enqueued in the same way. Enqueueing is taken to succeed: the consumer
  does not cancel the stream while the pump runs.
\<close>

datatype stream_state = Readable | Closed | Errored

record controller =
  frames :: "string list"
  state :: stream_state

definition new_controller :: controller where
  "new_controller = \<lparr>frames = [], state = Readable\<rparr>"

definition enqueue :: "string \<Rightarrow> controller \<Rightarrow> controller" where
  "enqueue event c = c\<lparr>frames := frames c @ [event]\<rparr>"

definition enqueue_events :: "string list \<Rightarrow> controller \<Rightarrow> controller" where
  "enqueue_events events c = foldl (\<lambda>c event. enqueue event c) c events"







text \<open>
  The decoder callback \<open>processLine\<close> returns null or an object with events and the two
  next indices, or throws. It may keep state of its own between calls (the adapters'
  closures do), so it takes and returns a state of any type \<open>'d\<close>.
\<close>

datatype decoded = DecodeThrows | DecodeNull | Decoded "string list" nat nat

type_synonym 'd decoder = "'d \<Rightarrow> string \<Rightarrow> nat \<Rightarrow> nat \<Rightarrow> decoded \<times> 'd"

text \<open>
  The variables of \<open>start\<close>, apart from \<open>buffer\<close>, which the loop functions take as an
  argument. A block of code either completes or throws, leaving the variables as they
  are at that point.
\<close>

record 'd pump =
  controller :: controller
  textBlockIndex :: nat
  toolUseBlockIndex :: nat
  decoder_state :: 'd

datatype 'a completion = Normal 'a | Thrown 'a

text \<open>
  \<^verbatim>\<open>const jsonStr = dataMatch ? dataMatch[1].trim() : trimmedLine\<close>, then the body of the
  \<open>for (const line of lines)\<close> loop, and the loop.
\<close>

definition jsonStr_of :: "string \<Rightarrow> string" where
  "jsonStr_of trimmedLine =
     (case dataMatch trimmedLine of Some capture \<Rightarrow> trim capture | None \<Rightarrow> trimmedLine)"

definition process_line :: "'d decoder \<Rightarrow> string \<Rightarrow> 'd pump \<Rightarrow> 'd pump completion" where
  "process_line processLine line st =
     (let trimmedLine = trim line in
      if trimmedLine = [] then Normal st
      else
        let jsonStr = jsonStr_of trimmedLine in
        if jsonStr = ''[DONE]'' then Normal st
        else if jsonStr = [] then Normal st
        else
          (case processLine (decoder_state st) jsonStr (textBlockIndex st) (toolUseBlockIndex st) of
             (DecodeThrows, d) \<Rightarrow> Thrown (st\<lparr>decoder_state := d\<rparr>)
           | (DecodeNull, d) \<Rightarrow> Normal (st\<lparr>decoder_state := d\<rparr>)
           | (Decoded events ti ui, d) \<Rightarrow>
               Normal (st\<lparr>controller := enqueue_events events (controller st),
                           textBlockIndex := ti, toolUseBlockIndex := ui,
                           decoder_state := d\<rparr>)))"

fun process_lines :: "'d decoder \<Rightarrow> string list \<Rightarrow> 'd pump \<Rightarrow> 'd pump completion" where
  "process_lines processLine [] st = Normal st"
| "process_lines processLine (line # lines) st =
     (case process_line processLine line st of
        Normal st' \<Rightarrow> process_lines processLine lines st'
      | Thrown st' \<Rightarrow> Thrown st')"

text \<open>
  The \<open>while (true)\<close> loop over the reads: the end of the list is \<open>done\<close>, a rejected read
  throws. \<open>lines.pop() || ''\<close> is the last segment, and the lines of the \<open>for\<close> loop are the
  others.
\<close>

fun read_loop ::
  "'d decoder \<Rightarrow> read list \<Rightarrow> string \<Rightarrow> 'd pump \<Rightarrow> (string \<times> 'd pump) completion" where
  "read_loop processLine [] buffer st = Normal (buffer, st)"
| "read_loop processLine (ReadRejects # reads) buffer st = Thrown (buffer, st)"
| "read_loop processLine (Chunk chunk # reads) buffer st =
     (let lines = split_nl (buffer @ chunk) in
      case process_lines processLine (butlast lines) st of
        Normal st' \<Rightarrow> read_loop processLine reads (last lines) st'
      | Thrown st' \<Rightarrow> Thrown (last lines, st'))"

text \<open>
  The code after the loop that handles what is left in the buffer; the indices returned
  by the decoder are not used there. \<open>try_block\<close> is the \<open>try\<close> block up to that point.
\<close>

definition drain :: "'d decoder \<Rightarrow> string \<Rightarrow> 'd pump \<Rightarrow> 'd pump completion" where
  "drain processLine buffer st =
     (if trim buffer \<noteq> []
      then
        let jsonStr = jsonStr_of (trim buffer) in
        if jsonStr \<noteq> [] \<and> jsonStr \<noteq> ''[DONE]''
        then
          (case processLine (decoder_state st) jsonStr (textBlockIndex st) (toolUseBlockIndex st) of
             (DecodeThrows, d) \<Rightarrow> Thrown (st\<lparr>decoder_state := d\<rparr>)
           | (DecodeNull, d) \<Rightarrow> Normal (st\<lparr>decoder_state := d\<rparr>)
           | (Decoded events ti ui, d) \<Rightarrow>
               Normal (st\<lparr>controller := enqueue_events events (controller st),
                           decoder_state := d\<rparr>))
        else Normal st
      else Normal st)"

definition try_block :: "'d decoder \<Rightarrow> read list \<Rightarrow> 'd pump \<Rightarrow> 'd pump completion" where
  "try_block processLine reads st =
     (case read_loop processLine reads [] st of
        Normal (buffer, st') \<Rightarrow> drain processLine buffer st'
      | Thrown (buffer, st') \<Rightarrow> Thrown st')"






section \<open>The text received from upstream\<close>

text \<open>
  What the reads gave up to the end of the stream or the first rejected read; the
  payload of a line, which is what the pump passes to the decoder for it; and the
  payloads it does pass: neither empty nor \<open>[DONE]\<close>. \<open>passed_on\<close> lists the payloads
  passed to the decoder when no call throws: those of the complete lines and, unless a
  read is rejected, that of what is left at the end. \<open>decoder_run\<close> is what a decoder gives
  when it is called on payloads one after the other, each call with the state and the
  indices that the call before left, up to the first call that throws: the events
  returned, in order, and whether a call threw.
\<close>

fun received :: "read list \<Rightarrow> string" where
  "received [] = []"
| "received (ReadRejects # reads) = []"
| "received (Chunk chunk # reads) = chunk @ received reads"





section \<open>The line framing as the specification words it\<close>

text \<open>
  The algorithm of claim C9, on the whole text received rather than chunk by chunk: its
  segments between line feeds, all but the last, are the complete lines; the
  candidate of a line is the capture of the \<open>data:\<close> pattern on the trimmed line, or the
  trimmed line itself; an empty candidate and \<open>[DONE]\<close> are skipped, every other
  candidate is decoded with the current indices, which advance to the returned ones.
  What happens to the last segment at the end of the stream is a parameter, \<open>at_eof\<close>:
  \<open>drain_as_claimed\<close> follows the claim's sentence (a buffer that is not empty gets
  exactly one decoder call), \<open>drain_guarded\<close> applies the same skipping as for a line.
\<close>

definition candidate :: "string \<Rightarrow> string" where
  "candidate line =
     (let trimmed = trim line in
      case dataMatch trimmed of Some capture \<Rightarrow> capture | None \<Rightarrow> trimmed)"

definition decode_candidate :: "bool \<Rightarrow> 'd decoder \<Rightarrow> string \<Rightarrow> 'd pump \<Rightarrow> 'd pump completion" where
  "decode_candidate advance decode cand st =
     (case decode (decoder_state st) cand (textBlockIndex st) (toolUseBlockIndex st) of
        (DecodeThrows, d) \<Rightarrow> Thrown (st\<lparr>decoder_state := d\<rparr>)
      | (DecodeNull, d) \<Rightarrow> Normal (st\<lparr>decoder_state := d\<rparr>)
      | (Decoded events nextTextIndex nextToolIndex, d) \<Rightarrow>
          Normal (st\<lparr>controller := enqueue_events events (controller st),
                      textBlockIndex := (if advance then nextTextIndex else textBlockIndex st),
                      toolUseBlockIndex := (if advance then nextToolIndex else toolUseBlockIndex st),
                      decoder_state := d\<rparr>))"

definition feed :: "bool \<Rightarrow> 'd decoder \<Rightarrow> string \<Rightarrow> 'd pump \<Rightarrow> 'd pump completion" where
  "feed advance decode cand st =
     (if cand = [] \<or> cand = ''[DONE]'' then Normal st
      else decode_candidate advance decode cand st)"

fun feed_all :: "'d decoder \<Rightarrow> string list \<Rightarrow> 'd pump \<Rightarrow> 'd pump completion" where
  "feed_all decode [] st = Normal st"
| "feed_all decode (cand # cands) st =
     (case feed True decode cand st of
        Normal st' \<Rightarrow> feed_all decode cands st'
      | Thrown st' \<Rightarrow> Thrown st')"

definition framing ::
  "('d decoder \<Rightarrow> string \<Rightarrow> 'd pump \<Rightarrow> 'd pump completion)
    \<Rightarrow> 'd decoder \<Rightarrow> read list \<Rightarrow> 'd pump \<Rightarrow> 'd pump completion" where
  "framing at_eof decode reads st =
     (let segments = split_nl (received reads) in
      case feed_all decode (map candidate (butlast segments)) st of
        Thrown st' \<Rightarrow> Thrown st'
      | Normal st' \<Rightarrow>
          if ReadRejects \<in> set reads then Thrown st'
          else at_eof decode (last segments) st')"

definition drain_guarded :: "'d decoder \<Rightarrow> string \<Rightarrow> 'd pump \<Rightarrow> 'd pump completion" where
  "drain_guarded decode remaining st = feed False decode (candidate remaining) st"

definition drain_as_claimed :: "'d decoder \<Rightarrow> string \<Rightarrow> 'd pump \<Rightarrow> 'd pump completion" where
  "drain_as_claimed decode remaining st =
     (if remaining \<noteq> [] then decode_candidate False decode (candidate remaining) st
      else Normal st)"

section \<open>Example decoders and streams\<close>

text \<open>
  A decoder that records its calls in its state, returns the payload as its one event
  and advances the text index; and a decoder that throws at every call. A response
  whose body comes in three chunks cut in the middle of lines, one whose second read is
  rejected, and two responses with a null body.
\<close>

definition recording_decoder :: "(string \<times> nat \<times> nat) list decoder" where
  "recording_decoder calls jsonStr textIndex toolIndex =
     (Decoded [jsonStr] (textIndex + 1) toolIndex, calls @ [(jsonStr, textIndex, toolIndex)])"


definition fresh_pump :: "'d \<Rightarrow> 'd pump" where
  "fresh_pump d0 = \<lparr>controller = new_controller, textBlockIndex = 0, toolUseBlockIndex = 0,
     decoder_state = d0\<rparr>"

definition sse_chunks :: "read list" where
  "sse_chunks =
     [Chunk ''data: {a'',
      Chunk (''}'' @ [CHR 0x0A] @ ''data: [DONE]'' @ [CHR 0x0A, CHR 0x0A] @ ''da''),
      Chunk ''ta: x'']"






section \<open>Notions used in the proofs about the pump\<close>


definition trimmed :: "string \<Rightarrow> bool" where
  "trimmed s = (space_at_start s = None \<and> space_at_end s = None)"

section \<open>Facts about the string functions\<close>

lemma toLowerCase_literals:
  "toLowerCase ''assistant'' = ''assistant''"
  "toLowerCase ''user'' = ''user''"
  "toLowerCase ''system'' = ''system''"
  "toLowerCase ''tool'' = ''tool''"
  by (simp_all add: toLowerCase_def lower_char_def)

text \<open>
  \<^const>\<open>includes_str\<close> is the substring test of \<^verbatim>\<open>String.prototype.includes\<close>.
\<close>

lemma includes_str_iff: "includes_str s sub = (\<exists>ps ss. s = ps @ sub @ ss)"
proof (induction s)
  case Nil
  then show ?case by simp
next
  case (Cons c cs)
  have "(\<exists>ps ss. c # cs = ps @ sub @ ss)
      = ((\<exists>ss. c # cs = sub @ ss) \<or> (\<exists>ps ss. cs = ps @ sub @ ss))"
  proof
    assume "\<exists>ps ss. c # cs = ps @ sub @ ss"
    then obtain ps ss where e: "c # cs = ps @ sub @ ss" by blast
    show "(\<exists>ss. c # cs = sub @ ss) \<or> (\<exists>ps ss. cs = ps @ sub @ ss)"
    proof (cases ps)
      case Nil
      with e show ?thesis by auto
    next
      case (Cons p ps')
      with e have "cs = ps' @ sub @ ss" by simp
      then show ?thesis by blast
    qed
  next
    assume "(\<exists>ss. c # cs = sub @ ss) \<or> (\<exists>ps ss. cs = ps @ sub @ ss)"
    then show "\<exists>ps ss. c # cs = ps @ sub @ ss"
    proof
      assume "\<exists>ss. c # cs = sub @ ss"
      then obtain ss where "c # cs = [] @ sub @ ss" by auto
      then show ?thesis by blast
    next
      assume "\<exists>ps ss. cs = ps @ sub @ ss"
      then obtain ps ss where "c # cs = (c # ps) @ sub @ ss" by auto
      then show ?thesis by blast
    qed
  qed
  with Cons show ?case by (simp add: prefix_def)
qed

text \<open>
  White space: \<open>trim\<close> leaves none at either end, and leaves alone a string that has none
  there.
\<close>

lemma space_at_Nil [simp]: "space_at_start [] = None" "space_at_end [] = None"
  by (simp_all add: space_at_start_def space_at_end_def white_space_def line_terminators_def)

lemma trimStart_None: "space_at_start s = None \<Longrightarrow> trimStart s = s"
  by (subst trimStart.simps) simp

lemma trimStart_Some:
  "space_at_start s = Some w \<Longrightarrow> trimStart s = trimStart (drop (length w) s)"
  by (subst trimStart.simps) simp

lemma trimEnd_None: "space_at_end s = None \<Longrightarrow> trimEnd s = s"
  by (subst trimEnd.simps) simp

lemma trimEnd_Some:
  "space_at_end s = Some w \<Longrightarrow> trimEnd s = trimEnd (take (length s - length w) s)"
  by (subst trimEnd.simps) simp

lemma trim_Nil [simp]: "trim [] = []"
  by (simp add: trim_def trimStart_None trimEnd_None)

lemma space_at_start_trimStart: "space_at_start (trimStart s) = None"
proof (induction s rule: trimStart.induct)
  case (1 s)
  then show ?case
    by (cases "space_at_start s") (simp_all add: trimStart_None trimStart_Some)
qed

lemma suffix_trimStart: "suffix (trimStart s) s"
proof (induction s rule: trimStart.induct)
  case (1 s)
  show ?case
  proof (cases "space_at_start s")
    case None
    then show ?thesis by (simp add: trimStart_None)
  next
    case (Some w)
    from "1" [OF Some] have "suffix (trimStart s) (drop (length w) s)"
      by (simp add: trimStart_Some [OF Some])
    then show ?thesis using suffix_drop suffix_order.trans by blast
  qed
qed

lemma space_at_end_trimEnd: "space_at_end (trimEnd s) = None"
proof (induction s rule: trimEnd.induct)
  case (1 s)
  then show ?case
    by (cases "space_at_end s") (simp_all add: trimEnd_None trimEnd_Some)
qed

lemma prefix_trimEnd: "prefix (trimEnd s) s"
proof (induction s rule: trimEnd.induct)
  case (1 s)
  show ?case
  proof (cases "space_at_end s")
    case None
    then show ?thesis by (simp add: trimEnd_None)
  next
    case (Some w)
    from "1" [OF Some] have "prefix (trimEnd s) (take (length s - length w) s)"
      by (simp add: trimEnd_Some [OF Some])
    then show ?thesis using take_is_prefix prefix_order.trans by blast
  qed
qed

lemma space_at_start_prefix:
  "space_at_start s = None \<Longrightarrow> prefix t s \<Longrightarrow> space_at_start t = None"
  unfolding space_at_start_def find_None_iff
  using prefix_order.trans by blast

lemma space_at_end_suffix:
  "space_at_end s = None \<Longrightarrow> suffix t s \<Longrightarrow> space_at_end t = None"
  unfolding space_at_end_def find_None_iff
  using suffix_order.trans by blast

lemma trimmed_trim: "trimmed (trim s)"
  unfolding trimmed_def trim_def
  using space_at_end_trimEnd space_at_start_prefix [OF space_at_start_trimStart prefix_trimEnd]
  by blast

lemma trim_trimmed: "trimmed s \<Longrightarrow> trim s = s"
  by (simp add: trimmed_def trim_def trimStart_None trimEnd_None)

lemma trimmed_suffix:
  assumes "trimmed s"
  shows "trimmed (trimStart (drop n s))"
proof -
  have "suffix (trimStart (drop n s)) s"
    using suffix_trimStart [of "drop n s"] suffix_drop [of n s] suffix_order.trans by blast
  with assms show ?thesis
    unfolding trimmed_def using space_at_start_trimStart space_at_end_suffix by blast
qed

section \<open>Role normalisation: the mapping\<close>

text \<open>
  Claim C8. \<open>normalizeClaudeRole\<close> is defined on every string. Read without regard to
  case, \<open>assistant\<close> and \<open>model\<close> give \<open>assistant\<close>, \<open>user\<close> and \<open>human\<close> give \<open>user\<close>, \<open>system\<close>
  gives \<open>system\<close>, \<open>tool\<close> gives \<open>tool\<close>, and every other string gives \<open>user\<close>; the result is
  always one of the four role names, and normalising a second time changes nothing.
\<close>

theorem normalizeClaudeRole_mapping:
  "(toLowerCase role = ''assistant'' \<or> toLowerCase role = ''model''
      \<longrightarrow> normalizeClaudeRole role = ''assistant'')
   \<and> (toLowerCase role = ''user'' \<or> toLowerCase role = ''human''
      \<longrightarrow> normalizeClaudeRole role = ''user'')
   \<and> (toLowerCase role = ''system'' \<longrightarrow> normalizeClaudeRole role = ''system'')
   \<and> (toLowerCase role = ''tool'' \<longrightarrow> normalizeClaudeRole role = ''tool'')
   \<and> (toLowerCase role \<notin> {''assistant'', ''model'', ''user'', ''human'', ''system'', ''tool''}
      \<longrightarrow> normalizeClaudeRole role = ''user'')
   \<and> normalizeClaudeRole role \<in> {''assistant'', ''user'', ''system'', ''tool''}
   \<and> normalizeClaudeRole (normalizeClaudeRole role) = normalizeClaudeRole role"
proof -
  have range: "normalizeClaudeRole role \<in> {''assistant'', ''user'', ''system'', ''tool''}"
    by (simp add: normalizeClaudeRole_def Let_def)
  have fixed: "normalizeClaudeRole r = r"
    if "r \<in> {''assistant'', ''user'', ''system'', ''tool''}" for r
    using that by (auto simp: normalizeClaudeRole_def Let_def toLowerCase_literals)
  have idem: "normalizeClaudeRole (normalizeClaudeRole role) = normalizeClaudeRole role"
    using fixed [OF range] .
  have cases: "(toLowerCase role = ''assistant'' \<or> toLowerCase role = ''model''
      \<longrightarrow> normalizeClaudeRole role = ''assistant'')
   \<and> (toLowerCase role = ''user'' \<or> toLowerCase role = ''human''
      \<longrightarrow> normalizeClaudeRole role = ''user'')
   \<and> (toLowerCase role = ''system'' \<longrightarrow> normalizeClaudeRole role = ''system'')
   \<and> (toLowerCase role = ''tool'' \<longrightarrow> normalizeClaudeRole role = ''tool'')
   \<and> (toLowerCase role \<notin> {''assistant'', ''model'', ''user'', ''human'', ''system'', ''tool''}
      \<longrightarrow> normalizeClaudeRole role = ''user'')"
    by (simp add: normalizeClaudeRole_def Let_def)
  show ?thesis using cases range idem by blast
qed

theorem normalizeClaudeRole_mapping_witness:
  "toLowerCase ''MoDeL'' = ''model''
   \<and> normalizeClaudeRole ''MoDeL'' = ''assistant''
   \<and> normalizeClaudeRole (normalizeClaudeRole ''MoDeL'') = normalizeClaudeRole ''MoDeL''
   \<and> normalizeClaudeRole ''Human'' = ''user''
   \<and> normalizeClaudeRole ''SYSTEM'' = ''system''
   \<and> normalizeClaudeRole ''Tool'' = ''tool''
   \<and> normalizeClaudeRole ''developer'' = ''user''"
proof -
  have l: "toLowerCase ''MoDeL'' = ''model''"
    and l2: "toLowerCase ''Human'' = ''human''"
    and l3: "toLowerCase ''SYSTEM'' = ''system''"
    and l4: "toLowerCase ''Tool'' = ''tool''"
    and l5: "toLowerCase ''developer''
       \<notin> {''assistant'', ''model'', ''user'', ''human'', ''system'', ''tool''}"
    by (simp_all add: toLowerCase_def lower_char_def)
  from normalizeClaudeRole_mapping [of "''MoDeL''"]
  have 1: "normalizeClaudeRole ''MoDeL'' = ''assistant''"
    and 2: "normalizeClaudeRole (normalizeClaudeRole ''MoDeL'') = normalizeClaudeRole ''MoDeL''"
    using l by blast+
  from normalizeClaudeRole_mapping [of "''Human''"]
  have 3: "normalizeClaudeRole ''Human'' = ''user''" using l2 by blast
  from normalizeClaudeRole_mapping [of "''SYSTEM''"]
  have 4: "normalizeClaudeRole ''SYSTEM'' = ''system''" using l3 by blast
  from normalizeClaudeRole_mapping [of "''Tool''"]
  have 5: "normalizeClaudeRole ''Tool'' = ''tool''" using l4 by blast
  from normalizeClaudeRole_mapping [of "''developer''"]
  have 6: "normalizeClaudeRole ''developer'' = ''user''" using l5 by blast
  from l 1 2 3 4 5 6 show ?thesis by blast
qed

section \<open>Schema cleaning: proofs\<close>

text \<open>The loop over a list of entries, named for the proofs.\<close>

definition entries :: "bool \<Rightarrow> (string \<times> json) list \<Rightarrow> (string \<times> json) list" where
  "entries ts kvs = concat (map (\<lambda>(key, v).
       case key_action ts key v of
         Delete \<Rightarrow> []
       | Keep \<Rightarrow> [(key, v)]
       | Recurse \<Rightarrow> [(key, cleanJsonSchema v)]) kvs)"

lemma entries_simps:
  "entries ts [] = []"
  "entries ts ((k, v) # kvs) =
     (case key_action ts k v of Delete \<Rightarrow> [] | Keep \<Rightarrow> [(k, v)]
      | Recurse \<Rightarrow> [(k, cleanJsonSchema v)]) @ entries ts kvs"
  by (simp_all add: entries_def)

lemma clean_obj: "cleanJsonSchema (JObj kvs) = JObj (entries (map_of kvs ''type'' = Some (JStr ''string'')) kvs)"
  by (simp add: entries_def)

lemma clean_arr: "cleanJsonSchema (JArr xs) = JObj (entries False (zip (index_keys (length xs)) xs))"
  by (simp add: entries_def)

lemma typeof_clean: "typeof_object (cleanJsonSchema v) = typeof_object v"
  by (cases v) simp_all

lemma isArray_clean: "\<not> isArray (cleanJsonSchema v)"
  by (cases v) simp_all

lemma action_clean:
  "key_action ts k v = Recurse \<Longrightarrow> key_action ts k (cleanJsonSchema v) = Recurse"
  by (auto simp: key_action_def typeof_clean isArray_clean split: if_splits)

lemma action_typeof: "key_action ts k v = Recurse \<Longrightarrow> typeof_object v"
  by (auto simp: key_action_def split: if_splits)

lemma entries_idem:
  assumes "\<And>k v. (k, v) \<in> set kvs \<Longrightarrow> key_action ts k v = Recurse
             \<Longrightarrow> cleanJsonSchema (cleanJsonSchema v) = cleanJsonSchema v"
  shows "entries ts (entries ts kvs) = entries ts kvs"
  using assms
proof (induction kvs)
  case Nil
  then show ?case by (simp add: entries_simps)
next
  case (Cons kv kvs)
  obtain k v where kv: "kv = (k, v)" by (cases kv)
  have ih: "entries ts (entries ts kvs) = entries ts kvs"
    using Cons by auto
  have app: "entries ts (a @ b) = entries ts a @ entries ts b" for a b
    by (simp add: entries_def)
  show ?case
  proof (cases "key_action ts k v")
    case Delete
    then show ?thesis by (simp add: kv entries_simps ih)
  next
    case Keep
    then show ?thesis by (simp add: kv entries_simps ih app)
  next
    case Recurse
    then have "cleanJsonSchema (cleanJsonSchema v) = cleanJsonSchema v"
      using Cons.prems kv by auto
    with Recurse show ?thesis by (simp add: kv entries_simps ih app action_clean)
  qed
qed

lemma type_not_deleted: "key_action ts ''type'' v \<noteq> Delete"
  by (simp add: key_action_def)

lemma map_of_entries_type:
  "(map_of (entries ts kvs) ''type'' = Some (JStr ''string''))
     = (map_of kvs ''type'' = Some (JStr ''string''))"
proof (induction kvs)
  case Nil
  then show ?case by (simp add: entries_simps)
next
  case (Cons kv kvs)
  obtain k v where kv: "kv = (k, v)" by (cases kv)
  show ?case
  proof (cases "key_action ts k v")
    case Delete
    then have "k \<noteq> ''type''" using type_not_deleted by auto
    with Delete Cons show ?thesis by (simp add: kv entries_simps)
  next
    case Keep
    with Cons show ?thesis by (simp add: kv entries_simps)
  next
    case Recurse
    then have "typeof_object v" by (rule action_typeof)
    then have "v \<noteq> JStr ''string''" "cleanJsonSchema v \<noteq> JStr ''string''"
      by (cases v; simp)+
    with Recurse Cons show ?thesis by (simp add: kv entries_simps)
  qed
qed

lemma digit_in: "d < 10 \<Longrightarrow> digit d \<in> set ''0123456789''"
  unfolding digit_def by (rule nth_mem) simp

lemma show_nat_digits: "set (show_nat n) \<subseteq> set ''0123456789''"
proof (induction n rule: show_nat.induct)
  case (1 n)
  show ?case
  proof (cases "n < 10")
    case True
    then show ?thesis using digit_in [of n] by (subst show_nat.simps) simp
  next
    case False
    have "n mod 10 < 10" by simp
    from digit_in [OF this] 1 False show ?thesis
      by (subst show_nat.simps) simp
  qed
qed

lemma show_nat_not_type: "show_nat n \<noteq> ''type''"
proof
  assume "show_nat n = ''type''"
  then have "CHR ''t'' \<in> set (show_nat n)" by simp
  with show_nat_digits [of n] show False by auto
qed

lemma keys_entries: "fst ` set (entries ts kvs) \<subseteq> fst ` set kvs"
proof (induction kvs)
  case Nil
  then show ?case by (simp add: entries_simps)
next
  case (Cons kv kvs)
  obtain k v where kv: "kv = (k, v)" by (cases kv)
  from Cons show ?case
    by (cases "key_action ts k v") (auto simp: kv entries_simps)
qed

lemma index_entries_no_type:
  "map_of (entries False (zip (index_keys n) xs)) ''type'' = None"
proof -
  have "''type'' \<notin> fst ` set (zip (index_keys n) xs)"
    using show_nat_not_type by (auto simp: index_keys_def dest!: set_zip_leftD) metis
  with keys_entries [of False "zip (index_keys n) xs"]
  have "''type'' \<notin> fst ` set (entries False (zip (index_keys n) xs))" by blast
  then show ?thesis by (simp add: map_of_eq_None_iff)
qed

text \<open>
  Claim C7. \<open>cleanJsonSchema\<close> is idempotent: cleaning a cleaned value gives the cleaned
  value again, for every JSON value.
\<close>

theorem cleanJsonSchema_idempotent:
  "cleanJsonSchema (cleanJsonSchema x) = cleanJsonSchema x"
proof (induction x rule: cleanJsonSchema.induct)
  case (1 kvs)
  let ?ts = "map_of kvs ''type'' = Some (JStr ''string'')"
  have "entries ?ts (entries ?ts kvs) = entries ?ts kvs"
    by (rule entries_idem) (use 1 in blast)
  then show ?case
    by (simp only: clean_obj map_of_entries_type)
next
  case (2 xs)
  let ?z = "zip (index_keys (length xs)) xs"
  have "entries False (entries False ?z) = entries False ?z"
    by (rule entries_idem) (use 2 in blast)
  then show ?case
    by (simp only: clean_arr clean_obj index_entries_no_type) simp
qed simp_all

text \<open>The theorem on a schema with a tuple under \<open>items\<close> and a titled entry.\<close>

theorem cleanJsonSchema_idempotent_witness:
  "cleanJsonSchema (cleanJsonSchema (JObj [(''title'', JStr ''T''),
      (''items'', JArr [JObj [(''type'', JStr ''string''), (''format'', JStr ''date'')]])]))
   = JObj [(''items'', JObj [(''0'', JObj [(''type'', JStr ''string'')])])]"
proof -
  let ?x = "JObj [(''title'', JStr ''T''),
      (''items'', JArr [JObj [(''type'', JStr ''string''), (''format'', JStr ''date'')]])]"
  have "cleanJsonSchema (cleanJsonSchema ?x) = cleanJsonSchema ?x"
    by (rule cleanJsonSchema_idempotent)
  also have "cleanJsonSchema ?x
     = JObj [(''items'', JObj [(''0'', JObj [(''type'', JStr ''string'')])])]"
    by (simp add: key_action_def index_keys_def show_nat.simps digit_def)
  finally show ?thesis .
qed

text \<open>
  Claim C6, at an input where the code departs from it. A tool schema with one property
  called \<open>title\<close>: the \<open>properties\<close> branch hands the property map itself to
  \<open>cleanJsonSchema\<close>, which reads the property names as schema keywords and deletes the
  property.
\<close>

theorem cleanJsonSchema_deletes_property_named_title:
  "cleanJsonSchema (JObj [(''type'', JStr ''object''),
      (''properties'', JObj [(''title'', JObj [(''type'', JStr ''string'')])]),
      (''required'', JArr [JStr ''title''])])
   = JObj [(''type'', JStr ''object''), (''properties'', JObj []),
      (''required'', JArr [JStr ''title''])]"
  by (simp add: key_action_def)

text \<open>
  Under \<open>items\<close> an array does not pass through either: the tuple form
  \<^verbatim>\<open>items: [ {...}, {...} ]\<close> comes back as an object keyed by the indices.
\<close>

lemma cleanJsonSchema_items_array:
  "cleanJsonSchema (JObj [(''items'', JArr [JObj [(''type'', JStr ''number'')]])])
   = JObj [(''items'', JObj [(''0'', JObj [(''type'', JStr ''number'')])])]"
  by (simp add: key_action_def index_keys_def show_nat.simps digit_def)

section \<open>The failure classification: proofs\<close>

lemma startsWith_Nil [simp]: "startsWith [] (c # cs) = False"
  by (simp add: startsWith_def)

lemma classify_parsed_None_iff:
  "(classify_parsed r errorBody = None)
   = (errorBody = JNull
      \<or> (\<exists>e. get_prop errorBody ''error'' = Some e \<and> truthy e \<and> errorType_of e = None))"
  by (auto simp: classify_parsed_def Let_def split: option.splits json.splits if_splits)

lemma classify_unreadable: "unreadable r \<Longrightarrow> classify up r = classify_unparsed up r"
proof (cases "body_json r")
  case None
  then show ?thesis by (simp add: classify_def)
next
  case (Some errorBody)
  assume "unreadable r"
  with Some have "classify_parsed r errorBody = None"
    unfolding classify_parsed_None_iff by (auto simp: unreadable_def split: option.splits)
  with Some show ?thesis by (simp add: classify_def)
qed






lemma detectUpstreamHtmlError_eq:
  "detectUpstreamHtmlError t =
     (let lower = toLowerCase (trim t);
          html = (startsWith lower ''<!doctype html'' \<or> startsWith lower ''<html'');
          cloudflare = (includes_str lower ''cloudflare''
                  \<and> (includes_str lower ''just a moment'' \<or> includes_str lower ''__cf_chl_opt''))
      in if \<not> html then \<lparr>isHtml = False, isCloudflare = None, reason = None, hint = None\<rparr>
         else if cloudflare then \<lparr>isHtml = True, isCloudflare = Some True,
                  reason = Some msg_cloudflare_reason, hint = Some msg_cloudflare_hint\<rparr>
         else \<lparr>isHtml = True, isCloudflare = None, reason = None, hint = None\<rparr>)"
  by (cases "t = []")
    (simp_all add: detectUpstreamHtmlError_def Let_def toLowerCase_def startsWith_def)


text \<open>
  What a failover means in the loop. Unless this was the last attempt, or the key is the
  empty string, the key is put among the excluded keys and the loop goes on to the next
  attempt. Otherwise the loop ends there, with the response in \<open>providerResponse\<close> and the
  key not excluded, and what follows the loop hands that response on.
\<close>

lemma failover_loop_break:
  "attempt < maxRetries
   \<Longrightarrow> attempt_body up getNextApiKey send maxRetries attempt st = (Break, st')
   \<Longrightarrow> failover_loop up getNextApiKey send maxRetries attempt st = st'"
  by (subst failover_loop.simps) simp

lemma failover_loop_continue:
  "attempt < maxRetries
   \<Longrightarrow> attempt_body up getNextApiKey send maxRetries attempt st = (Continue, st')
   \<Longrightarrow> failover_loop up getNextApiKey send maxRetries attempt st
       = failover_loop up getNextApiKey send maxRetries (Suc attempt) st'"
  by (subst failover_loop.simps) simp




lemma lower_pages:
  "toLowerCase (trim cloudflare_page) = ''<html><title>just a moment...</title>cloudflare</html>''"
  "toLowerCase (trim spaced_html_page) = ''<html>bad gateway</html>''"
  by code_simp+

lemma example_unreadable:
  "unreadable cloudflare_response" "unreadable spaced_html_response"
  "unreadable null_error_response" "unreadable type_without_string_response"
  "unreadable unparsed_bad_request"
  by (simp_all add: unreadable_def cloudflare_response_def spaced_html_response_def
      null_error_response_def type_without_string_response_def unparsed_bad_request_def
      upstream_response_def errorType_of_def)

lemma nextKey_sequential_channel:
  "nextKey_sequential channel attempt [] = Inr ''k1''"
  "nextKey_sequential channel attempt [''k1''] = Inr ''k2''"
  "nextKey_sequential channel attempt [''k1'', ''k2''] = Inr ''k3''"
  by (simp_all add: nextKey_sequential_def channel_def)






section \<open>The failover loop: proofs\<close>

lemma set_add_set [simp]: "set (set_add x xs) = insert x (set xs)"
  by (auto simp: set_add_def)

lemma set_add_distinct [simp]: "distinct xs \<Longrightarrow> distinct (set_add x xs)"
  by (simp add: set_add_def)

text \<open>
  Attempts are made one after the other, within the number of keys of the channel; if
  there is no attempt \<open>a\<close> there is none later.
\<close>

lemma excluded_before_Suc:
  "excluded_before up getNextApiKey send (Suc a) = Some excluded'
   \<Longrightarrow> \<exists>excluded. excluded_before up getNextApiKey send a = Some excluded"
  by (simp split: option.splits)

lemma excluded_before_bound:
  "excluded_before up getNextApiKey send a = Some excluded \<Longrightarrow> a < length (apiKeys up)"
  by (cases a) (auto split: option.splits sum.splits if_splits)

lemma excluded_before_later:
  "excluded_before up getNextApiKey send a = None
   \<Longrightarrow> excluded_before up getNextApiKey send (a + n) = None"
  by (induction n) simp_all

lemma tried_at:
  "excluded_before up getNextApiKey send a = Some excluded
   \<Longrightarrow> tried up getNextApiKey send a key resp
       = (getNextApiKey a excluded = Inr key \<and> send a key = Inr resp)"
  by (simp add: tried_def)

lemma tried_not_later:
  assumes "excluded_before up getNextApiKey send (Suc a) = None"
    and "tried up getNextApiKey send b key resp"
  shows "b \<le> a"
proof (rule ccontr)
  assume "\<not> b \<le> a"
  then have "b = Suc a + (b - Suc a)" by simp
  with excluded_before_later [OF assms(1), of "b - Suc a"]
  have "excluded_before up getNextApiKey send b = None" by simp
  with assms(2) show False by (simp add: tried_def)
qed

lemma on_error_continue:
  assumes "on_error maxRetries attempt apiKey message st = (Continue, st')"
  shows "providerResponse st' = providerResponse st
    \<and> lastFailoverError st' = lastFailoverError st
    \<and> deprioritizeCandidates st' = deprioritizeCandidates st
    \<and> attempt + 1 \<noteq> maxRetries
    \<and> (\<exists>k. apiKey = Some k \<and> k \<noteq> [] \<and> failedKeys st' = set_add k (failedKeys st))"
  using assms by (auto simp: on_error_def Let_def split: if_splits option.splits)

lemma on_error_break:
  assumes "on_error maxRetries attempt apiKey message st = (Break, st')"
  shows "providerResponse st' = providerResponse st
    \<and> lastFailoverError st' = lastFailoverError st
    \<and> deprioritizeCandidates st' = deprioritizeCandidates st
    \<and> (attempt + 1 = maxRetries \<or> apiKey = None \<or> apiKey = Some [])"
  using assms by (auto simp: on_error_def Let_def split: if_splits option.splits)

lemma classifier_failover:
  "\<not> ok r \<Longrightarrow> shouldFailover (classify up r)
     \<Longrightarrow> classifier up r = Failover (isQuotaRelated (classify up r))"
  by (simp add: classifier_def)

lemma loop_invI:
  assumes "excluded_before up getNextApiKey send a = Some (failedKeys st)"
    and "\<And>b key resp. b < a \<Longrightarrow> tried up getNextApiKey send b key resp \<Longrightarrow> \<not> ok resp"
    and "distinct (deprioritizeCandidates st)"
    and "set (deprioritizeCandidates st)
          = {key. \<exists>b resp. b < a \<and> tried up getNextApiKey send b key resp
                            \<and> classifier up resp = Failover True}"
    and "case providerResponse st of None \<Rightarrow> lastFailoverError st = None | Some r \<Rightarrow> \<not> ok r"
  shows "loop_inv up getNextApiKey send a st"
  unfolding loop_inv_def
proof (intro conjI allI impI)
  fix b key resp
  assume "b < a \<and> tried up getNextApiKey send b key resp"
  then show "\<not> ok resp" using assms(2) by blast
qed (fact assms)+

lemma attempt_continue:
  assumes inv: "loop_inv up getNextApiKey send a st"
    and step: "attempt_body up getNextApiKey send (length (apiKeys up)) a st = (Continue, st')"
  shows "loop_inv up getNextApiKey send (Suc a) st'"
proof -
  from inv have ex: "excluded_before up getNextApiKey send a = Some (failedKeys st)"
    and before: "\<And>b key resp. b < a \<Longrightarrow> tried up getNextApiKey send b key resp \<Longrightarrow> \<not> ok resp"
    and dist: "distinct (deprioritizeCandidates st)"
    and cands: "set (deprioritizeCandidates st)
          = {key. \<exists>b resp. b < a \<and> tried up getNextApiKey send b key resp
                            \<and> classifier up resp = Failover True}"
    and held: "case providerResponse st of None \<Rightarrow> lastFailoverError st = None
               | Some r \<Rightarrow> \<not> ok r"
    by (auto simp: loop_inv_def)
  note bound = excluded_before_bound [OF ex]
  note at = tried_at [OF ex]
  show ?thesis
  proof (cases "getNextApiKey a (failedKeys st)")
    case (Inl message)
    with step have "on_error (length (apiKeys up)) a None message st = (Continue, st')"
      by (simp add: attempt_body_def)
    from on_error_continue [OF this] show ?thesis by simp
  next
    case (Inr apiKey)
    note key = this
    show ?thesis
    proof (cases "send a apiKey")
      case (Inl message)
      with step key
      have "on_error (length (apiKeys up)) a (Some apiKey) message st = (Continue, st')"
        by (simp add: attempt_body_def)
      from on_error_continue [OF this] have same:
        "providerResponse st' = providerResponse st"
        "lastFailoverError st' = lastFailoverError st"
        "deprioritizeCandidates st' = deprioritizeCandidates st"
        and last: "a + 1 \<noteq> length (apiKeys up)"
        and k: "apiKey \<noteq> []" "failedKeys st' = set_add apiKey (failedKeys st)"
        by auto
      have none: "\<not> tried up getNextApiKey send a k r" for k r
        using key Inl by (auto simp: at)
      have next_ex: "excluded_before up getNextApiKey send (Suc a) = Some (failedKeys st')"
        using ex key Inl k last bound by simp
      have lt: "b < a" if "b < Suc a" "tried up getNextApiKey send b k r" for b k r
        using that none by (cases "b = a") auto
      have n: "\<not> ok r" if "b < Suc a" "tried up getNextApiKey send b k r" for b k r
        using before [OF lt [OF that] that(2)] .
      have d: "distinct (deprioritizeCandidates st')"
        using dist by (simp add: same)
      have s: "set (deprioritizeCandidates st')
          = {key. \<exists>b r. b < Suc a \<and> tried up getNextApiKey send b key r
                            \<and> classifier up r = Failover True}"
        unfolding same cands using none by (auto simp: less_Suc_eq)
      have h: "case providerResponse st' of None \<Rightarrow> lastFailoverError st' = None
               | Some r \<Rightarrow> \<not> ok r"
        using held by (simp add: same split: option.splits)
      show ?thesis
        using next_ex n d s h by (rule loop_invI)
    next
      case (Inr resp)
      define st1 where "st1 = st\<lparr>providerResponse := Some resp\<rparr>"
      define c where "c = classify up resp"
      define st2 where "st2 = (case recorded c of
                                Some e \<Rightarrow> st1\<lparr>lastFailoverError := Some e\<rparr>
                              | None \<Rightarrow> st1)"
      define st3 where "st3 = (if isQuotaRelated c \<and> apiKey \<noteq> []
                                   then st2\<lparr>deprioritizeCandidates :=
                                               set_add apiKey (deprioritizeCandidates st2)\<rparr>
                                   else st2)"
      have eq: "attempt_body up getNextApiKey send (length (apiKeys up)) a st =
          (if ok resp then (Break, st1)
           else if shouldFailover c
                then on_error (length (apiKeys up)) a (Some apiKey) (errorMessage c) st3
                else (Break, st2))"
        unfolding st3_def st2_def st1_def c_def attempt_body_def Let_def
        by (simp add: key Inr)
      have nok: "\<not> ok resp" and sf: "shouldFailover c"
        and err: "on_error (length (apiKeys up)) a (Some apiKey) (errorMessage c) st3
                    = (Continue, st')"
        using step unfolding eq by (auto split: if_splits)
      from on_error_continue [OF err] have same:
        "providerResponse st' = providerResponse st3"
        "deprioritizeCandidates st' = deprioritizeCandidates st3"
        and last: "a + 1 \<noteq> length (apiKeys up)"
        and k: "apiKey \<noteq> []" "failedKeys st' = set_add apiKey (failedKeys st3)"
        by auto
      have cl: "classifier up resp = Failover (isQuotaRelated c)"
        using classifier_failover [OF nok] sf by (simp add: c_def)
      have p3: "providerResponse st3 = Some resp"
        and f3: "failedKeys st3 = failedKeys st"
        and d3: "deprioritizeCandidates st3 =
            (if isQuotaRelated c then set_add apiKey (deprioritizeCandidates st)
             else deprioritizeCandidates st)"
        using k by (auto simp: st3_def st2_def st1_def split: option.splits)
      have this_one: "tried up getNextApiKey send a k r \<longleftrightarrow> k = apiKey \<and> r = resp" for k r
        using key Inr by (auto simp: at)
      have next_ex: "excluded_before up getNextApiKey send (Suc a) = Some (failedKeys st')"
        using ex key Inr k f3 last bound cl by simp
      have lt: "b < a \<or> (b = a \<and> k = apiKey \<and> r = resp)"
        if "b < Suc a" "tried up getNextApiKey send b k r" for b k r
        using that this_one [of k r] by (cases "b = a") auto
      have d: "distinct (deprioritizeCandidates st')"
        using dist by (simp add: same d3)
      have s: "set (deprioritizeCandidates st')
          = {key. \<exists>b r. b < Suc a \<and> tried up getNextApiKey send b key r
                            \<and> classifier up r = Failover True}" (is "?L = ?R")
      proof (intro set_eqI iffI)
        fix key
        assume "key \<in> ?L"
        then consider (old) "key \<in> set (deprioritizeCandidates st)"
          | (new) "key = apiKey" "isQuotaRelated c"
          by (auto simp: same d3 split: if_splits)
        then show "key \<in> ?R"
        proof cases
          case old
          with cands obtain b r where "b < a" "tried up getNextApiKey send b key r"
            "classifier up r = Failover True" by auto
          moreover from this(1) have "b < Suc a" by simp
          ultimately show ?thesis by blast
        next
          case new
          have "a < Suc a" by simp
          moreover have "tried up getNextApiKey send a key resp"
            using new(1) by (simp add: this_one)
          moreover have "classifier up resp = Failover True" using cl new(2) by simp
          ultimately show ?thesis by blast
        qed
      next
        fix key
        assume "key \<in> ?R"
        then obtain b r where b: "b < Suc a" "tried up getNextApiKey send b key r"
          "classifier up r = Failover True" by auto
        from lt [OF b(1,2)] show "key \<in> ?L"
        proof
          assume "b < a"
          with b(2,3) cands have "key \<in> set (deprioritizeCandidates st)" by auto
          then show ?thesis by (simp add: same d3)
        next
          assume "b = a \<and> key = apiKey \<and> r = resp"
          with b(3) cl have "key = apiKey" "isQuotaRelated c" by auto
          then show ?thesis by (simp add: same d3)
        qed
      qed
      have n: "\<not> ok r" if "b < Suc a" "tried up getNextApiKey send b k r" for b k r
        using lt [OF that] before that(2) nok by auto
      have h: "case providerResponse st' of None \<Rightarrow> lastFailoverError st' = None
               | Some r \<Rightarrow> \<not> ok r"
        using nok by (simp add: same p3)
      show ?thesis
        using next_ex n d s h by (rule loop_invI)
    qed
  qed
qed

lemma attempt_break:
  assumes inv: "loop_inv up getNextApiKey send a st"
    and step: "attempt_body up getNextApiKey send (length (apiKeys up)) a st = (Break, st')"
  shows "loop_post up getNextApiKey send st'"
proof -
  from inv have ex: "excluded_before up getNextApiKey send a = Some (failedKeys st)"
    and before: "\<And>b key resp. b < a \<Longrightarrow> tried up getNextApiKey send b key resp \<Longrightarrow> \<not> ok resp"
    and dist: "distinct (deprioritizeCandidates st)"
    and cands: "set (deprioritizeCandidates st)
          = {key. \<exists>b resp. b < a \<and> tried up getNextApiKey send b key resp
                            \<and> classifier up resp = Failover True}"
    and held: "case providerResponse st of None \<Rightarrow> lastFailoverError st = None
               | Some r \<Rightarrow> \<not> ok r"
    by (auto simp: loop_inv_def)
  note bound = excluded_before_bound [OF ex]
  note at = tried_at [OF ex]
  have unchanged: "loop_post up getNextApiKey send st'"
    if same: "providerResponse st' = providerResponse st"
      "lastFailoverError st' = lastFailoverError st"
      "deprioritizeCandidates st' = deprioritizeCandidates st"
      and none: "\<And>k r. \<not> tried up getNextApiKey send a k r"
      and stop: "excluded_before up getNextApiKey send (Suc a) = None"
  proof -
    have "\<not> ok r" if t: "tried up getNextApiKey send b k r" for b k r
    proof -
      from tried_not_later [OF stop t] none t have "b < a" by (cases "b = a") auto
      from before [OF this t] show ?thesis .
    qed
    then have all: "\<forall>b k r. tried up getNextApiKey send b k r \<longrightarrow> \<not> ok r" by blast
    show ?thesis
    proof (cases "providerResponse st")
      case None
      with held have "lastFailoverError st = None" by simp
      with None dist all show ?thesis
        unfolding loop_post_def same by simp
    next
      case (Some r)
      with held have "\<not> ok r" by simp
      with Some dist all show ?thesis
        unfolding loop_post_def same by simp
    qed
  qed
  show ?thesis
  proof (cases "getNextApiKey a (failedKeys st)")
    case (Inl message)
    with step have "on_error (length (apiKeys up)) a None message st = (Break, st')"
      by (simp add: attempt_body_def)
    from on_error_break [OF this] show ?thesis
      using ex Inl by (intro unchanged) (auto simp: at)
  next
    case (Inr apiKey)
    note key = this
    show ?thesis
    proof (cases "send a apiKey")
      case (Inl message)
      with step key
      have "on_error (length (apiKeys up)) a (Some apiKey) message st = (Break, st')"
        by (simp add: attempt_body_def)
      from on_error_break [OF this] show ?thesis
        using ex key Inl by (intro unchanged) (auto simp: at)
    next
      case (Inr resp)
      define st1 where "st1 = st\<lparr>providerResponse := Some resp\<rparr>"
      define c where "c = classify up resp"
      define st2 where "st2 = (case recorded c of
                                Some e \<Rightarrow> st1\<lparr>lastFailoverError := Some e\<rparr>
                              | None \<Rightarrow> st1)"
      define st3 where "st3 = (if isQuotaRelated c \<and> apiKey \<noteq> []
                                   then st2\<lparr>deprioritizeCandidates :=
                                               set_add apiKey (deprioritizeCandidates st2)\<rparr>
                                   else st2)"
      have eq: "attempt_body up getNextApiKey send (length (apiKeys up)) a st =
          (if ok resp then (Break, st1)
           else if shouldFailover c
                then on_error (length (apiKeys up)) a (Some apiKey) (errorMessage c) st3
                else (Break, st2))"
        unfolding st3_def st2_def st1_def c_def attempt_body_def Let_def
        by (simp add: key Inr)
      have this_one: "tried up getNextApiKey send a k r \<longleftrightarrow> k = apiKey \<and> r = resp" for k r
        using key Inr by (auto simp: at)
      have stop: "excluded_before up getNextApiKey send (Suc a) = None"
      proof (cases "ok resp")
        case True
        then have "classifier up resp = Success" by (simp add: classifier_def)
        then show ?thesis using ex key Inr by simp
      next
        case False
        show ?thesis
        proof (cases "shouldFailover c")
          case True
          with False step have "on_error (length (apiKeys up)) a (Some apiKey) (errorMessage c) st3
              = (Break, st')" unfolding eq by simp
          from on_error_break [OF this] have "a + 1 = length (apiKeys up) \<or> apiKey = []"
            by auto
          then show ?thesis using ex key Inr by auto
        next
          case nf: False
          with False have "classifier up resp = FatalPassThrough"
            by (simp add: classifier_def c_def)
          then show ?thesis using ex key Inr by simp
        qed
      qed
      have where_tried: "b < a \<or> (b = a \<and> k = apiKey \<and> r = resp)"
        if t: "tried up getNextApiKey send b k r" for b k r
        using tried_not_later [OF stop t] t this_one [of k r] by (cases "b = a") auto
      show ?thesis
      proof (cases "ok resp")
        case True
        then have st': "st' = st1" using step unfolding eq by simp
        have cl: "classifier up resp = Success" using True by (simp add: classifier_def)
        have only: "r = resp" if "tried up getNextApiKey send b k r" "ok r" for b k r
          using where_tried [OF that(1)] before that by auto
        have earlier: "b < a"
          if "tried up getNextApiKey send b k r" "classifier up r = Failover True" for b k r
          using where_tried [OF that(1)] that(2) cl by auto
        have s: "set (deprioritizeCandidates st)
            = {key. \<exists>b r. tried up getNextApiKey send b key r
                           \<and> classifier up r = Failover True}"
          unfolding cands using earlier by auto
        have "tried up getNextApiKey send a apiKey resp" by (simp add: this_one)
        then have one: "\<exists>b k. tried up getNextApiKey send b k resp" by blast
        have all: "\<forall>b k r. tried up getNextApiKey send b k r \<and> ok r \<longrightarrow> r = resp"
          using only by blast
        have p: "providerResponse st' = Some resp"
          and d: "deprioritizeCandidates st' = deprioritizeCandidates st"
          by (simp_all add: st' st1_def)
        show ?thesis
          unfolding loop_post_def p d option.case using True dist s one all by simp
      next
        case False
        have p: "providerResponse st' = Some resp" and d: "distinct (deprioritizeCandidates st')"
          using step False dist unfolding eq
          by (auto simp: on_error_def st3_def st2_def st1_def Let_def
              split: if_splits option.splits)
        have "\<not> ok r" if "tried up getNextApiKey send b k r" for b k r
          using where_tried [OF that] before that False by auto
        then have all: "\<forall>b k r. tried up getNextApiKey send b k r \<longrightarrow> \<not> ok r" by blast
        show ?thesis
          unfolding loop_post_def p option.case using False d all by simp
      qed
    qed
  qed
qed

lemma failover_loop_post:
  "loop_inv up getNextApiKey send a st \<Longrightarrow> maxRetries = length (apiKeys up)
   \<Longrightarrow> loop_post up getNextApiKey send (failover_loop up getNextApiKey send maxRetries a st)"
proof (induction up getNextApiKey send maxRetries a st rule: failover_loop.induct)
  case (1 up getNextApiKey send maxRetries attempt st)
  from "1.prems"(1) have "excluded_before up getNextApiKey send attempt = Some (failedKeys st)"
    by (simp add: loop_inv_def)
  from excluded_before_bound [OF this] "1.prems"(2) have lt: "attempt < maxRetries" by simp
  obtain fl st' where step:
    "attempt_body up getNextApiKey send maxRetries attempt st = (fl, st')"
    by (cases "attempt_body up getNextApiKey send maxRetries attempt st")
  show ?case
  proof (cases fl)
    case Break
    with step lt attempt_break [OF "1.prems"(1), of st'] "1.prems"(2) show ?thesis
      by (simp add: failover_loop_break)
  next
    case Continue
    with step have s: "attempt_body up getNextApiKey send maxRetries attempt st = (Continue, st')"
      by simp
    from attempt_continue [OF "1.prems"(1), of st'] s "1.prems"(2)
    have "loop_inv up getNextApiKey send (Suc attempt) st'" by simp
    from "1.IH" [OF lt s [symmetric] _ _ "1.prems"(2)] this s lt show ?thesis
      by (simp add: failover_loop_continue)
  qed
qed

lemma initial_inv:
  "apiKeys up \<noteq> [] \<Longrightarrow> supported up \<Longrightarrow> loop_inv up getNextApiKey send 0 initial_state"
  by (simp add: loop_inv_def initial_state_def)

lemma messages_failover_post:
  "apiKeys up \<noteq> [] \<Longrightarrow> supported up
   \<Longrightarrow> loop_post up getNextApiKey send (messages_failover up getNextApiKey send)"
  unfolding messages_failover_def by (rule failover_loop_post [OF initial_inv]) simp_all

lemma no_attempt:
  "apiKeys up = [] \<or> \<not> supported up \<Longrightarrow> \<not> tried up getNextApiKey send a key resp"
proof -
  assume "apiKeys up = [] \<or> \<not> supported up"
  then have "excluded_before up getNextApiKey send 0 = None" by auto
  from excluded_before_later [OF this, of a] show ?thesis by (simp add: tried_def)
qed

text \<open>
  Claim C5. For every channel, scheduler and sender. The request succeeds when an
  attempt receives a 2xx response, and that response is then the one handed on; no other
  response handed on is a 2xx. The keys for which
  \<open>deprioritizeApiKeyForCurrentUpstream\<close> is called are, when the request succeeds,
  exactly the keys that received a response classified failover and quota-related at an
  attempt of this request, each once; when it does not succeed (a response passed
  through, the last failed response handed on, or an answer of the handler's own) there
  is no such call, and the keys of the channel are in the order they were.
\<close>

theorem deprioritize_only_after_success:
  "distinct (deprioritize_calls (post_messages up getNextApiKey send))
   \<and> set (deprioritize_calls (post_messages up getNextApiKey send))
     = (if \<exists>a key resp. tried up getNextApiKey send a key resp \<and> ok resp
        then {key. \<exists>a resp. tried up getNextApiKey send a key resp
                            \<and> classifier up resp = Failover True}
        else {})
   \<and> (\<forall>resp. (\<exists>a key. tried up getNextApiKey send a key resp \<and> ok resp)
          = (ok resp \<and> (\<exists>keys. post_messages up getNextApiKey send = Converted resp keys)))
   \<and> (\<not> (\<exists>a key resp. tried up getNextApiKey send a key resp \<and> ok resp)
        \<longrightarrow> deprioritize_calls (post_messages up getNextApiKey send) = []
            \<and> persisted_keys up (post_messages up getNextApiKey send) = apiKeys up)"
proof (cases "apiKeys up \<noteq> [] \<and> supported up")
  case False
  then have none: "\<not> tried up getNextApiKey send a key resp" for a key resp
    by (intro no_attempt) auto
  from False have "\<exists>code b. post_messages up getNextApiKey send = Responded code b"
    by (auto simp: post_messages_def)
  then obtain code b where "post_messages up getNextApiKey send = Responded code b" by blast
  with none show ?thesis by (simp add: persisted_keys_def)
next
  case True
  define st where "st = messages_failover up getNextApiKey send"
  have post: "post_messages up getNextApiKey send = after_loop st"
    using True by (simp add: post_messages_def st_def)
  from True have lp: "loop_post up getNextApiKey send st"
    unfolding st_def by (intro messages_failover_post) simp_all
  then have dist: "distinct (deprioritizeCandidates st)" by (simp add: loop_post_def)
  show ?thesis
  proof (cases "providerResponse st")
    case None
    with lp have none: "\<not> (tried up getNextApiKey send a key resp \<and> ok resp)" for a key resp
      by (auto simp: loop_post_def)
    from None have "\<exists>code b. after_loop st = Responded code b"
      by (auto simp: after_loop_def Let_def split: option.splits)
    then obtain code b where "after_loop st = Responded code b" by blast
    with none show ?thesis by (auto simp: post persisted_keys_def)
  next
    case (Some r)
    have conv: "after_loop st = Converted r
        (if ok r \<and> deprioritizeCandidates st \<noteq> [] then deprioritizeCandidates st else [])"
      using Some by (simp add: after_loop_def)
    show ?thesis
    proof (cases "ok r")
      case False
      with lp Some have none: "\<not> (tried up getNextApiKey send a key resp \<and> ok resp)"
        for a key resp
        by (auto simp: loop_post_def)
      have "after_loop st = Converted r []" using conv False by simp
      with none False show ?thesis by (auto simp: post persisted_keys_def)
    next
      case True
      with lp Some have one: "\<exists>a key. tried up getNextApiKey send a key r"
        and only: "\<And>a key resp. tried up getNextApiKey send a key resp \<Longrightarrow> ok resp \<Longrightarrow> resp = r"
        and cands: "set (deprioritizeCandidates st)
            = {key. \<exists>a resp. tried up getNextApiKey send a key resp
                             \<and> classifier up resp = Failover True}"
        by (auto simp: loop_post_def)
      have calls: "deprioritize_calls (post_messages up getNextApiKey send)
          = deprioritizeCandidates st"
        using conv True by (simp add: post)
      have success: "\<exists>a key resp. tried up getNextApiKey send a key resp \<and> ok resp"
        using one True by blast
      have final: "(\<exists>a key. tried up getNextApiKey send a key resp \<and> ok resp)
          = (ok resp \<and> (\<exists>keys. post_messages up getNextApiKey send = Converted resp keys))"
        for resp
        using one only True by (auto simp: post conv)
      show ?thesis
        unfolding calls using dist cands success final by simp
    qed
  qed
qed

text \<open>
  The branch after the loop that answers with \<open>lastFailoverError\<close> is never taken:
  whenever the loop has run and the handler answers by itself, no upstream response was
  received, none was recorded, and the answer is the 500 of the last branch.
\<close>

lemma all_keys_failed_is_500:
  assumes "apiKeys up \<noteq> []" "supported up"
    and "post_messages up getNextApiKey send = Responded code b"
  shows "code = 500 \<and> get_prop b ''error'' = Some (JStr msg_all_keys_unavailable)"
  using assms messages_failover_post [OF assms(1,2), of getNextApiKey send]
  by (auto simp: post_messages_def after_loop_def loop_post_def Let_def
      split: option.splits if_splits)

lemma classify_billing_response:
  "classify channel billing_response = \<lparr>shouldFailover = True, isQuotaRelated = True,
      errorMessage = msg_api_key_error @ ''credit balance too low'',
      recorded = Some \<lparr>fe_status = 400, fe_body = body_json billing_response,
                        fe_text = None\<rparr>\<rparr>"
  by (simp add: billing_response_def upstream_response_def classify_def classify_parsed_def
      errorType_of_def errorMsg_of_def toLowerCase_def lower_char_def
      kw_points_insufficient_def Let_def)

lemma classify_cloudflare_response:
  "classify channel cloudflare_response = \<lparr>shouldFailover = True, isQuotaRelated = False,
      errorMessage = default_errorMessage cloudflare_response,
      recorded = Some \<lparr>fe_status = 502, fe_body = Some cloudflare_error_body,
                        fe_text = None\<rparr>\<rparr>"
proof -
  have ne: "msg_cloudflare_reason \<noteq> []" "msg_cloudflare_hint \<noteq> []"
    by (simp_all add: msg_cloudflare_reason_def msg_cloudflare_hint_def)
  have d: "detectUpstreamHtmlError cloudflare_page
     = \<lparr>isHtml = True, isCloudflare = Some True,
                  reason = Some msg_cloudflare_reason, hint = Some msg_cloudflare_hint\<rparr>"
    unfolding detectUpstreamHtmlError_eq lower_pages Let_def
    by (simp add: startsWith_def)
  have b: "html_error_body channel \<lparr>isHtml = True, isCloudflare = Some True,
                  reason = Some msg_cloudflare_reason, hint = Some msg_cloudflare_hint\<rparr>
      = cloudflare_error_body"
    by (simp add: html_error_body_def cloudflare_error_body_def channel_def ne)
  have t: "body_text cloudflare_response = Some cloudflare_page"
    and s: "status cloudflare_response = 502"
    by (simp_all add: cloudflare_response_def upstream_response_def)
  have "classify channel cloudflare_response = classify_unparsed channel cloudflare_response"
    using example_unreadable(1) by (rule classify_unreadable)
  also have "\<dots> = \<lparr>shouldFailover = True, isQuotaRelated = False,
      errorMessage = default_errorMessage cloudflare_response,
      recorded = Some \<lparr>fe_status = 502, fe_body = Some cloudflare_error_body,
                        fe_text = None\<rparr>\<rparr>"
    unfolding classify_unparsed_def t s by (simp add: d b)
  finally show ?thesis .
qed

lemma example_ok:
  "ok ok_response" "\<not> ok billing_response" "\<not> ok cloudflare_response"
  by (simp_all add: ok_def ok_response_def billing_response_def cloudflare_response_def
      upstream_response_def)

lemma channel_runs:
  "apiKeys channel \<noteq> []" "supported channel" "length (apiKeys channel) = 3"
  by (simp_all add: channel_def supported_def)

lemma example_classifier:
  "classifier channel billing_response = Failover True"
  "classifier channel ok_response = Success"
  "classifier channel cloudflare_response = Failover False"
  by (simp_all add: classifier_def example_ok classify_billing_response
      classify_cloudflare_response)

text \<open>
  Scenario B of the specification: the first key answers 400 with a billing error, the
  second 200. The first key, and only it, is deprioritized, and the keys of the channel
  are then \<open>k2\<close>, \<open>k3\<close>, \<open>k1\<close>. And when every key is answered with the challenge page, no
  key is deprioritized.
\<close>

theorem deprioritize_only_after_success_witness:
  "tried channel (nextKey_sequential channel) first_key_out_of_credit 0 ''k1'' billing_response
   \<and> classifier channel billing_response = Failover True
   \<and> tried channel (nextKey_sequential channel) first_key_out_of_credit 1 ''k2'' ok_response
   \<and> ok ok_response
   \<and> ''k1'' \<in> set (deprioritize_calls (post_messages channel (nextKey_sequential channel)
        first_key_out_of_credit))
   \<and> post_messages channel (nextKey_sequential channel) first_key_out_of_credit
       = Converted ok_response [''k1'']
   \<and> persisted_keys channel (post_messages channel (nextKey_sequential channel)
        first_key_out_of_credit) = [''k2'', ''k3'', ''k1'']
   \<and> deprioritize_calls (post_messages channel (nextKey_sequential channel) always_cloudflare)
       = []"
proof -
  define st1 where "st1 = \<lparr>failedKeys = [''k1''], providerResponse = Some billing_response,
        lastError = Some (msg_api_key_error @ ''credit balance too low''),
        lastFailoverError = Some \<lparr>fe_status = 400, fe_body = body_json billing_response,
                                   fe_text = None\<rparr>,
        deprioritizeCandidates = [''k1''], markedFailed = [''k1'']\<rparr>"
  define st2 where "st2 = st1\<lparr>providerResponse := Some ok_response\<rparr>"
  have s0: "attempt_body channel (nextKey_sequential channel) first_key_out_of_credit 3 0
       initial_state = (Continue, st1)"
    by (simp add: attempt_body_def on_error_def nextKey_sequential_channel initial_state_def
        first_key_out_of_credit_def set_add_def example_ok classify_billing_response
        st1_def Let_def)
  have s1: "attempt_body channel (nextKey_sequential channel) first_key_out_of_credit 3 (Suc 0)
       st1 = (Break, st2)"
    by (simp add: attempt_body_def nextKey_sequential_channel first_key_out_of_credit_def
        example_ok st1_def st2_def Let_def)
  have run: "messages_failover channel (nextKey_sequential channel) first_key_out_of_credit = st2"
    unfolding messages_failover_def channel_runs
    by (simp add: failover_loop_continue [OF _ s0] failover_loop_break [OF _ s1])
  have result: "post_messages channel (nextKey_sequential channel) first_key_out_of_credit
       = Converted ok_response [''k1'']"
    unfolding post_messages_def run
    by (simp add: channel_runs after_loop_def st2_def st1_def example_ok)
  have keys: "persisted_keys channel (Converted ok_response [''k1'']) = [''k2'', ''k3'', ''k1'']"
    by (simp add: persisted_keys_def deprioritizeKey_def channel_def)
  have e0: "excluded_before channel (nextKey_sequential channel) first_key_out_of_credit 0
      = Some []"
    by (simp add: channel_runs)
  have e1: "excluded_before channel (nextKey_sequential channel) first_key_out_of_credit (Suc 0)
      = Some [''k1'']"
    unfolding excluded_before.simps(2) e0
    by (simp add: nextKey_sequential_channel first_key_out_of_credit_def channel_runs
        example_classifier set_add_def)
  have t0: "tried channel (nextKey_sequential channel) first_key_out_of_credit 0 ''k1''
      billing_response"
    unfolding tried_def e0
    by (simp add: nextKey_sequential_channel first_key_out_of_credit_def)
  have t1: "tried channel (nextKey_sequential channel) first_key_out_of_credit 1 ''k2''
      ok_response"
    unfolding tried_def One_nat_def e1
    by (simp add: nextKey_sequential_channel first_key_out_of_credit_def)
  note inst = deprioritize_only_after_success [of channel "nextKey_sequential channel"
      first_key_out_of_credit]
  have success: "\<exists>a key resp. tried channel (nextKey_sequential channel)
      first_key_out_of_credit a key resp \<and> ok resp"
    using t1 example_ok(1) by blast
  from inst success
  have "set (deprioritize_calls (post_messages channel (nextKey_sequential channel)
        first_key_out_of_credit))
     = {key. \<exists>a resp. tried channel (nextKey_sequential channel) first_key_out_of_credit a key resp
                       \<and> classifier channel resp = Failover True}"
    by simp
  with t0 example_classifier(1)
  have member: "''k1'' \<in> set (deprioritize_calls (post_messages channel
      (nextKey_sequential channel) first_key_out_of_credit))"
    by blast
  have "\<not> ok resp" if "tried channel (nextKey_sequential channel) always_cloudflare a key resp"
    for a key resp
  proof -
    from that have "resp = cloudflare_response"
      by (auto simp: tried_def always_cloudflare_def split: option.splits)
    then show ?thesis by (simp add: example_ok)
  qed
  then have "\<not> (\<exists>a key resp. tried channel (nextKey_sequential channel) always_cloudflare
      a key resp \<and> ok resp)" by blast
  with deprioritize_only_after_success [of channel "nextKey_sequential channel"
      always_cloudflare]
  have none: "deprioritize_calls (post_messages channel (nextKey_sequential channel)
      always_cloudflare) = []"
    by blast
  show ?thesis
    using t0 example_classifier(1) t1 example_ok(1) member result keys none
    by simp
qed

text \<open>
  Claim C2, at an input where the code departs from it (scenario F of the
  specification, with three keys): every key of the channel receives a 502 Cloudflare
  challenge page. The
  structured error is recorded in \<open>lastFailoverError\<close>, but \<open>providerResponse\<close> still holds
  the last response, so the test \<open>!providerResponse\<close> after the loop fails and the handler
  goes on with the raw 502 response instead of answering with the recorded error.
\<close>

theorem all_keys_html_forwards_raw_response:
  "post_messages channel (nextKey_sequential channel) always_cloudflare
     = Converted cloudflare_response []
   \<and> lastFailoverError (messages_failover channel (nextKey_sequential channel)
       always_cloudflare)
     = Some \<lparr>fe_status = 502, fe_body = Some cloudflare_error_body, fe_text = None\<rparr>"
proof -
  define st1 where "st1 = \<lparr>failedKeys = [''k1''], providerResponse = Some cloudflare_response,
        lastError = Some (default_errorMessage cloudflare_response),
        lastFailoverError = Some \<lparr>fe_status = 502, fe_body = Some cloudflare_error_body,
                                   fe_text = None\<rparr>,
        deprioritizeCandidates = [], markedFailed = [''k1'']\<rparr>"
  define st2 where "st2 = st1\<lparr>failedKeys := [''k1'', ''k2''], markedFailed := [''k1'', ''k2'']\<rparr>"
  have s0: "attempt_body channel (nextKey_sequential channel) always_cloudflare 3 0
       initial_state = (Continue, st1)"
    by (simp add: attempt_body_def on_error_def nextKey_sequential_channel initial_state_def
        always_cloudflare_def set_add_def example_ok classify_cloudflare_response
        st1_def Let_def)
  have s1: "attempt_body channel (nextKey_sequential channel) always_cloudflare 3 (Suc 0)
       st1 = (Continue, st2)"
    by (simp add: attempt_body_def on_error_def nextKey_sequential_channel
        always_cloudflare_def set_add_def example_ok classify_cloudflare_response
        st1_def st2_def Let_def)
  have s2: "attempt_body channel (nextKey_sequential channel) always_cloudflare 3 (Suc (Suc 0))
       st2 = (Break, st2)"
    by (simp add: attempt_body_def on_error_def nextKey_sequential_channel
        always_cloudflare_def example_ok classify_cloudflare_response
        st1_def st2_def Let_def)
  have run: "messages_failover channel (nextKey_sequential channel) always_cloudflare = st2"
    unfolding messages_failover_def channel_runs
    by (simp add: failover_loop_continue [OF _ s0] failover_loop_continue [OF _ s1]
        failover_loop_break [OF _ s2])
  show ?thesis
    unfolding post_messages_def run
    by (simp add: channel_runs after_loop_def st2_def st1_def example_ok)
qed

section \<open>The stream pump: proofs\<close>

subsection \<open>The chunk-wise loop and the whole text\<close>

lemma capture_trimmed:
  assumes "dataMatch (trim line) = Some capture"
  shows "trim capture = capture"
proof -
  from assms have "capture = trimStart (drop 5 (trim line))"
    by (auto simp: dataMatch_def Let_def split: if_splits)
  with trimmed_suffix [OF trimmed_trim, of 5 line] show ?thesis
    by (simp add: trim_trimmed)
qed

lemma jsonStr_candidate: "jsonStr_of (trim line) = candidate line"
  by (auto simp: jsonStr_of_def candidate_def Let_def capture_trimmed split: option.splits)


lemma candidate_Nil: "trim line = [] \<Longrightarrow> candidate line = []"
  by (simp add: candidate_def dataMatch_def startsWith_def Let_def)

lemma process_line_feed: "process_line decode line st = feed True decode (candidate line) st"
proof (cases "trim line = []")
  case True
  then show ?thesis by (simp add: process_line_def feed_def candidate_Nil)
next
  case False
  then show ?thesis
    by (auto simp: process_line_def feed_def decode_candidate_def Let_def jsonStr_candidate
        split: prod.splits decoded.splits)
qed

lemma process_lines_feed_all:
  "process_lines decode lines st = feed_all decode (map candidate lines) st"
  by (induction lines arbitrary: st) (simp_all add: process_line_feed split: completion.splits)

lemma drain_feed: "drain decode buffer st = drain_guarded decode buffer st"
proof (cases "trim buffer = []")
  case True
  then show ?thesis by (simp add: drain_def drain_guarded_def feed_def candidate_Nil)
next
  case False
  then show ?thesis
    by (auto simp: drain_def drain_guarded_def feed_def decode_candidate_def Let_def
        jsonStr_candidate split: prod.splits decoded.splits)
qed

lemma feed_all_append:
  "feed_all decode (xs @ ys) st =
     (case feed_all decode xs st of
        Normal st' \<Rightarrow> feed_all decode ys st'
      | Thrown st' \<Rightarrow> Thrown st')"
  by (induction xs arbitrary: st) (simp_all split: completion.splits)

lemma split_from_nonempty [simp]: "split_from cur s \<noteq> []"
  by (induction s arbitrary: cur) simp_all

lemma split_from_append:
  "split_from cur (a @ c) = butlast (split_from cur a) @ split_from (last (split_from cur a)) c"
  by (induction a arbitrary: cur) simp_all

lemma last_split_from_no_newline: "CHR 0x0A \<notin> set cur \<Longrightarrow> CHR 0x0A \<notin> set (last (split_from cur s))"
  by (induction s arbitrary: cur) simp_all

lemma split_from_prefix:
  "CHR 0x0A \<notin> set b \<Longrightarrow> split_from cur (b @ s) = split_from (cur @ b) s"
  by (induction b arbitrary: cur) auto

lemma read_loop_framing:
  assumes "CHR 0x0A \<notin> set buffer"
  shows "(case read_loop decode reads buffer st of
            Normal (b, st') \<Rightarrow> drain decode b st'
          | Thrown (b, st') \<Rightarrow> Thrown st') =
     (case feed_all decode (map candidate (butlast (split_from buffer (received reads)))) st of
        Thrown st' \<Rightarrow> Thrown st'
      | Normal st' \<Rightarrow>
          if ReadRejects \<in> set reads then Thrown st'
          else drain_guarded decode (last (split_from buffer (received reads))) st')"
  using assms
proof (induction reads arbitrary: buffer st)
  case Nil
  then show ?case by (simp add: drain_feed)
next
  case (Cons r reads)
  show ?case
  proof (cases r)
    case ReadRejects
    then show ?thesis by simp
  next
    case (Chunk chunk)
    let ?lines = "split_from buffer chunk"
    let ?rest = "split_from (last ?lines) (received reads)"
    have lines: "split_nl (buffer @ chunk) = ?lines"
      using split_from_prefix [OF Cons.prems, of "[]" chunk] by (simp add: split_nl_def)
    have nl: "CHR 0x0A \<notin> set (last ?lines)"
      using Cons.prems by (rule last_split_from_no_newline)
    have segs: "split_from buffer (received (r # reads)) = butlast ?lines @ ?rest"
      by (simp add: Chunk split_from_append)
    have bl: "butlast (split_from buffer (received (r # reads)))
        = butlast ?lines @ butlast ?rest"
      by (simp add: segs butlast_append)
    have la: "last (split_from buffer (received (r # reads))) = last ?rest"
      by (simp add: segs)
    have rej: "(ReadRejects \<in> set (r # reads)) = (ReadRejects \<in> set reads)"
      by (simp add: Chunk)
    show ?thesis
    proof (cases "feed_all decode (map candidate (butlast ?lines)) st")
      case (Thrown st')
      then show ?thesis
        by (simp add: Chunk lines Let_def process_lines_feed_all feed_all_append
            split_from_append butlast_append)
    next
      case (Normal st')
      have "(case read_loop decode (r # reads) buffer st of
            Normal (b, st') \<Rightarrow> drain decode b st'
          | Thrown (b, st') \<Rightarrow> Thrown st')
        = (case read_loop decode reads (last ?lines) st' of
            Normal (b, st') \<Rightarrow> drain decode b st'
          | Thrown (b, st') \<Rightarrow> Thrown st')"
        by (simp add: Chunk lines Let_def process_lines_feed_all Normal)
      also note Cons.IH [OF nl, of st']
      finally show ?thesis
        unfolding bl la rej map_append feed_all_append Normal completion.case .
    qed
  qed
qed

lemma try_block_framing:
  "try_block decode reads st = framing drain_guarded decode reads st"
  using read_loop_framing [of "[]" decode reads st]
  by (simp add: try_block_def framing_def split_nl_def Let_def)

text \<open>
  Claim C9, as the code has it. For every decoder, every sequence of reads and every
  state of the pump, the \<open>try\<close> block of the pump (the chunk-wise loop with its carry-over
  buffer, then the handling of the rest) does what the framing of the specification does
  on the whole text, with the last segment treated like a line: it is decoded by one
  final call when its candidate is neither empty nor \<open>[DONE]\<close>, and not at all otherwise;
  the indices returned by that final call are not used.
\<close>

theorem pump_line_framing:
  "try_block decode reads st = framing drain_guarded decode reads st"
  by (rule try_block_framing)

lemma trimmed_examples:
  "trimmed ''data: {a}''" "trimmed ''data: [DONE]''" "trimmed ''data: x''"
  by (simp_all add: trimmed_def space_at_start_def space_at_end_def white_space_def
      line_terminators_def suffix_to_prefix)

lemma dataMatch_examples:
  "dataMatch ''data: {a}'' = Some ''{a}''"
  "dataMatch ''data: [DONE]'' = Some ''[DONE]''"
  "dataMatch ''data: x'' = Some ''x''"
  by code_simp+

lemma candidate_examples:
  "candidate ''data: {a}'' = ''{a}''"
  "candidate ''data: [DONE]'' = ''[DONE]''"
  "candidate ''data: x'' = ''x''"
  "candidate [] = []"
  by (simp_all add: candidate_def trim_trimmed trimmed_examples dataMatch_examples Let_def)
    (simp add: dataMatch_def startsWith_def)

text \<open>
  Claim C9 as stated fails at the end of the stream: when the stream ends with
  \<open>data: [DONE]\<close> and no line feed, the buffer is not empty, and the pump makes no decoder
  call for it, where the claim's sentence asks for exactly one.
\<close>

theorem final_done_marker_is_not_decoded:
  "last (split_nl (received [Chunk ''data: [DONE]''])) = ''data: [DONE]''
   \<and> try_block recording_decoder [Chunk ''data: [DONE]''] (fresh_pump [])
       = Normal (fresh_pump [])
   \<and> framing drain_as_claimed recording_decoder [Chunk ''data: [DONE]''] (fresh_pump [])
       = Normal \<lparr>controller = \<lparr>frames = [''[DONE]''], state = Readable\<rparr>,
                 textBlockIndex = 0, toolUseBlockIndex = 0,
                 decoder_state = [(''[DONE]'', 0, 0)]\<rparr>"
proof -
  have t: "trim ''data: [DONE]'' = ''data: [DONE]''"
    by (simp add: trim_trimmed trimmed_examples)
  have c: "candidate ''data: [DONE]'' = ''[DONE]''"
    by (rule candidate_examples)
  have j: "jsonStr_of ''data: [DONE]'' = ''[DONE]''"
    using jsonStr_candidate [of "''data: [DONE]''"] by (simp only: t c)
  have s: "split_nl ''data: [DONE]'' = [''data: [DONE]'']"
    by (simp add: split_nl_def)
  have 1: "last (split_nl (received [Chunk ''data: [DONE]''])) = ''data: [DONE]''"
    by (simp add: s)
  have 2: "try_block recording_decoder [Chunk ''data: [DONE]''] (fresh_pump [])
       = Normal (fresh_pump [])"
    by (simp add: try_block_def s Let_def drain_def t j)
  have 3: "framing drain_as_claimed recording_decoder [Chunk ''data: [DONE]''] (fresh_pump [])
       = Normal \<lparr>controller = \<lparr>frames = [''[DONE]''], state = Readable\<rparr>,
                 textBlockIndex = 0, toolUseBlockIndex = 0,
                 decoder_state = [(''[DONE]'', 0, 0)]\<rparr>"
    by (simp add: framing_def s Let_def drain_as_claimed_def c decode_candidate_def
        recording_decoder_def fresh_pump_def enqueue_events_def enqueue_def new_controller_def)
  show ?thesis using 1 2 3 by blast
qed

lemma segments_sse_chunks:
  "split_nl (received sse_chunks) = [''data: {a}'', ''data: [DONE]'', [], ''data: x'']"
  by (simp add: sse_chunks_def split_nl_def)

lemma framing_sse_chunks:
  "framing drain_guarded recording_decoder sse_chunks st =
     Normal (st\<lparr>controller := enqueue_events [''x''] (enqueue_events [''{a}''] (controller st)),
                textBlockIndex := textBlockIndex st + 1,
                decoder_state := decoder_state st
                   @ [(''{a}'', textBlockIndex st, toolUseBlockIndex st),
                      (''x'', textBlockIndex st + 1, toolUseBlockIndex st)]\<rparr>)"
  unfolding framing_def segments_sse_chunks Let_def
  by (simp add: candidate_examples feed_def decode_candidate_def recording_decoder_def
      drain_guarded_def sse_chunks_def)

text \<open>
  The theorem on a stream cut into three chunks in the middle of lines: the two data
  lines are decoded, the \<open>[DONE]\<close> line and the empty line are skipped, and the rest
  \<open>data: x\<close> is decoded at the end.
\<close>

theorem pump_line_framing_witness:
  "try_block recording_decoder sse_chunks (fresh_pump [])
     = Normal \<lparr>controller = \<lparr>frames = [''{a}'', ''x''], state = Readable\<rparr>,
               textBlockIndex = 1, toolUseBlockIndex = 0,
               decoder_state = [(''{a}'', 0, 0), (''x'', 1, 0)]\<rparr>"
  unfolding pump_line_framing [of recording_decoder sse_chunks "fresh_pump []"] framing_sse_chunks
  by (simp add: fresh_pump_def enqueue_events_def enqueue_def new_controller_def)

lemma candidate_white_space_examples:
  "candidate (''data:'' @ [CHR 0xC2, CHR 0xA0] @ ''x'') = ''x''"
  "candidate (''data: a'' @ [CHR 0xE2, CHR 0x80, CHR 0xA8] @ ''b'')
     = ''data: a'' @ [CHR 0xE2, CHR 0x80, CHR 0xA8] @ ''b''"
  "candidate ([CHR 0xEF, CHR 0xBB, CHR 0xBF] @ ''data: x'' @ [CHR 0x0D]) = ''x''"
  by code_simp+

subsection \<open>The frames emitted\<close>





















end
